theory Spec2Isabelle
  imports Main "HOL-Library.AList"
begin

section \<open>The class-enrollment request workflow of classRequestController.js\<close>

text \<open>
  The controller works on three Mongoose collections (class requests, students, classes)
  and on a notification model. Their schema files are not part of the sources at hand, so
  the documents carry the fields the controller reads and writes, typed as the
  specification's data model gives them.

  Conventions of the embedding:
  \<^item> a collection is an association list from \<open>_id\<close> to document; \<open>findById\<close> is
    \<open>map_of\<close>, \<open>doc.save()\<close> is \<open>AList.update\<close>, \<open>findByIdAndDelete\<close> is
    \<open>AList.delete\<close>;
  \<^item> \<open>populate\<close> of a reference is a lookup in the referenced collection and gives
    \<open>None\<close> (JavaScript \<open>null\<close>) when the document is gone;
  \<^item> a property read on \<open>null\<close> raises a TypeError in JavaScript: every such read is a
    \<open>None\<close> branch below, routed to the \<open>catch\<close> block that encloses it in the source;
  \<^item> store operations themselves (\<open>find\<close>, \<open>save\<close>, \<open>delete\<close>) are taken to
    succeed; the notification model may throw, as decided by \<open>createNotification_ok\<close>;
  \<^item> documents populated for several requests that name the same class (or student) are
    one shared object, which is Mongoose's default, so that the bulk handler sees in each
    round what the rounds before have saved;
  \<^item> every handler returns the HTTP answer (an \<open>error\<close> or the payload) and the new state;
  \<^item> \<open>console.error\<close> appends the text it is called with to \<open>console\<close>
    (\<open>console.log\<close> is not recorded);
  \<^item> notification titles and the \<open>message\<close> texts of the answers are constants of
    the source and are left out.
\<close>

subsection \<open>Documents\<close>

type_synonym oid = nat

datatype status = Pending | Approved | Rejected

record adminResponse_t =
  actionBy :: oid
  actionDate :: nat
  actionNote :: string

record classRequest =
  student :: oid
  class_id :: oid
  reason :: string
  status :: status
  adminResponse :: "adminResponse_t option"

text \<open>An array field that is absent (\<open>undefined\<close>) is \<open>None\<close>: the controller tests for it.\<close>

text \<open>
  \<open>student_status\<close> is the student's registration status (\<open>student.status\<close> in the
  source), \<open>class_type\<close> the class's \<open>type\<close>.
\<close>

record studentDoc =
  userId :: oid
  firstName :: string
  lastName :: string
  student_status :: string
  enrolledClasses :: "oid list option"

record classDoc =
  grade :: string
  category :: string
  class_type :: string
  isActive :: bool
  capacity :: int
  enrolledStudents :: "oid list option"

record notification =
  recipient :: oid
  ntype :: string
  message :: string
  data_classRequestId :: oid
  data_classId :: oid

record db =
  requests :: "(oid \<times> classRequest) list"
  students :: "(oid \<times> studentDoc) list"
  classes :: "(oid \<times> classDoc) list"
  notifications :: "notification list"
  console :: "string list"

text \<open>
  What a handler gets from outside: the clock (\<open>new Date()\<close>), the behaviour of
  \<open>Notification.createNotification\<close> (\<open>False\<close>: it throws), and the HTTP request
  (\<open>validationResult(req)\<close>, \<open>req.user.id\<close>, \<open>req.params.requestId\<close>,
  \<open>req.body.classId\<close>, \<open>req.body.reason\<close>, \<open>req.body.status\<close>,
  \<open>req.body.adminNote\<close>).
\<close>

record env =
  now :: nat
  createNotification_ok :: "notification \<Rightarrow> bool"

record req =
  validationErrors :: "string list"
  user_id :: oid
  requestId :: oid
  body_classId :: oid
  body_reason :: string
  body_status :: status
  adminNote :: "string option"

text \<open>
  The answers that are not a success, by HTTP status and message:
  \<open>Validation\<close> 400 with the validator's \<open>errors\<close> array;
  \<open>NotFound\<close> 404; \<open>InvalidState\<close> 400 with the message given;
  \<open>CapacityExceeded\<close> 400 'Class is at full capacity'; \<open>Forbidden\<close> 403;
  \<open>EnrollFailed\<close> 500 'Error enrolling student in class'; \<open>ServerError\<close> 500
  'Server error'.
\<close>

datatype error =
    Validation "string list"
  | NotFound string
  | InvalidState string
  | CapacityExceeded
  | Forbidden
  | EnrollFailed
  | ServerError

record failedRequest =
  studentName :: string
  className :: string
  failReason :: string

record bulkResponse =
  approvedCount :: nat
  failedCount :: nat
  failedRequests :: "failedRequest list option"

record deletedRequest =
  deleted_studentName :: string
  deleted_className :: string
  deleted_status :: status

subsection \<open>Helpers shared by the handlers\<close>

definition console_error :: "string \<Rightarrow> db \<Rightarrow> db" where
  "console_error msg d = d\<lparr>console := console d @ [msg]\<rparr>"

text \<open>\<open>adminNote || dflt\<close>: an absent or empty note gives the default.\<close>

definition noteOr :: "string option \<Rightarrow> string \<Rightarrow> string" where
  "noteOr n dflt = (case n of None \<Rightarrow> dflt | Some s \<Rightarrow> if s = [] then dflt else s)"

fun statusName :: "status \<Rightarrow> string" where
  "statusName Pending = ''Pending''"
| "statusName Approved = ''Approved''"
| "statusName Rejected = ''Rejected''"

text \<open>
  The \<open>_id\<close> of a populated document: the reference itself when the document exists,
  \<open>None\<close> (a TypeError at the read) when populate gave \<open>null\<close>.
\<close>

definition populated_id :: "oid \<Rightarrow> 'd option \<Rightarrow> oid option" where
  "populated_id i doc = (case doc of None \<Rightarrow> None | Some _ \<Rightarrow> Some i)"

text \<open>
  \<open>xs.some(id => id.equals(target._id))\<close>: the callback runs only on a non-empty
  array, so a \<open>null\<close> target raises only there. \<open>None\<close> is the TypeError.
\<close>

definition some_equals :: "oid list \<Rightarrow> oid option \<Rightarrow> bool option" where
  "some_equals xs target =
     (if xs = [] then Some False
      else case target of None \<Rightarrow> None | Some t \<Rightarrow> Some (t \<in> set xs))"

text \<open>\<open>xs.filter(id => !id.equals(target._id))\<close>, with the same TypeError.\<close>

definition filter_out :: "oid list \<Rightarrow> oid option \<Rightarrow> oid list option" where
  "filter_out xs target =
     (if xs = [] then Some []
      else case target of None \<Rightarrow> None | Some t \<Rightarrow> Some (filter (\<lambda>i. i \<noteq> t) xs))"

definition save_request :: "oid \<Rightarrow> classRequest \<Rightarrow> db \<Rightarrow> db" where
  "save_request i r d = d\<lparr>requests := AList.update i r (requests d)\<rparr>"

definition save_class :: "oid \<Rightarrow> classDoc \<Rightarrow> db \<Rightarrow> db" where
  "save_class i c d = d\<lparr>classes := AList.update i c (classes d)\<rparr>"

definition save_student :: "oid \<Rightarrow> studentDoc \<Rightarrow> db \<Rightarrow> db" where
  "save_student i s d = d\<lparr>students := AList.update i s (students d)\<rparr>"

text \<open>
  The capacity check, written three times in the source (lines 203-211, 394-402,
  497-511) with the same text. \<open>Some True\<close>: the class is at full capacity and the
  student is not in it; \<open>Some False\<close>: the check passes; \<open>None\<close>: TypeError.
\<close>

definition capacityFull :: "classDoc \<Rightarrow> oid option \<Rightarrow> bool option" where
  "capacityFull c sid =
     (let enrolledCount = (case enrolledStudents c of None \<Rightarrow> 0 | Some xs \<Rightarrow> length xs) in
      case (case enrolledStudents c of None \<Rightarrow> Some False | Some xs \<Rightarrow> some_equals xs sid) of
        None \<Rightarrow> None
      | Some isStudentAlreadyEnrolled \<Rightarrow>
          Some (\<not> isStudentAlreadyEnrolled \<and> capacity c \<le> int enrolledCount))"

text \<open>
  The two guarded pushes, also written three times (lines 223-241, 404-420, 513-529).
  The push of the student reads \<open>classRequest.student._id\<close>, hence the TypeError on a
  \<open>null\<close> student before anything is saved.
\<close>

definition addStudentToClass :: "oid \<Rightarrow> classDoc \<Rightarrow> oid option \<Rightarrow> db \<Rightarrow> db option" where
  "addStudentToClass cid c sid d =
     (let xs = (case enrolledStudents c of None \<Rightarrow> [] | Some xs \<Rightarrow> xs) in
      case some_equals xs sid of
        None \<Rightarrow> None
      | Some present \<Rightarrow>
          if present then Some d
          else (case sid of
                  None \<Rightarrow> None
                | Some s \<Rightarrow> Some (save_class cid (c\<lparr>enrolledStudents := Some (xs @ [s])\<rparr>) d)))"

definition addClassToStudent :: "oid \<Rightarrow> studentDoc \<Rightarrow> oid \<Rightarrow> db \<Rightarrow> db" where
  "addClassToStudent sid s cid d =
     (let ys = (case enrolledClasses s of None \<Rightarrow> [] | Some ys \<Rightarrow> ys) in
      if cid \<in> set ys then d
      else save_student sid (s\<lparr>enrolledClasses := Some (ys @ [cid])\<rparr>) d)"

definition enroll :: "classRequest \<Rightarrow> studentDoc option \<Rightarrow> classDoc \<Rightarrow> db \<Rightarrow> db option" where
  "enroll cr s_opt c d =
     (case addStudentToClass (class_id cr) c (populated_id (student cr) s_opt) d of
        None \<Rightarrow> None
      | Some d1 \<Rightarrow>
          (case s_opt of
             None \<Rightarrow> None
           | Some s \<Rightarrow> Some (addClassToStudent (student cr) s (class_id cr) d1)))"

text \<open>
  Building the argument of \<open>createNotification\<close> reads fields of the populated student
  and class: \<open>None\<close> when either is \<open>null\<close>. \<open>dispatch\<close> is the call itself.
\<close>

definition mkNotification ::
  "string \<Rightarrow> (studentDoc \<Rightarrow> oid) \<Rightarrow> (classDoc \<Rightarrow> string) \<Rightarrow> oid \<Rightarrow> classRequest \<Rightarrow>
   studentDoc option \<Rightarrow> classDoc option \<Rightarrow> notification option" where
  "mkNotification ty rcp msg rid cr s_opt c_opt =
     (case s_opt of
        None \<Rightarrow> None
      | Some s \<Rightarrow>
          (case c_opt of
             None \<Rightarrow> None
           | Some c \<Rightarrow>
               Some \<lparr>recipient = rcp s, ntype = ty, message = msg c,
                     data_classRequestId = rid, data_classId = class_id cr\<rparr>))"

definition dispatch :: "env \<Rightarrow> notification option \<Rightarrow> db \<Rightarrow> db option" where
  "dispatch e n d =
     (case n of
        None \<Rightarrow> None
      | Some m \<Rightarrow>
          if createNotification_ok e m then Some (d\<lparr>notifications := notifications d @ [m]\<rparr>)
          else None)"

text \<open>\<open>try { await Notification.createNotification(...) } catch { console.error(...) }\<close>\<close>

definition tryDispatch :: "env \<Rightarrow> string \<Rightarrow> notification option \<Rightarrow> db \<Rightarrow> db" where
  "tryDispatch e logmsg n d =
     (case dispatch e n d of None \<Rightarrow> console_error logmsg d | Some d' \<Rightarrow> d')"

subsection \<open>createClassRequest (lines 8-78)\<close>

text \<open>
  \<open>new ClassRequest(...)\<close> gets an \<open>_id\<close> that no request of the collection has: the
  model takes the successor of the largest one. The new request is Pending (the initial
  status) and has no adminResponse. \<open>student.enrolledClasses.includes(classId)\<close> is a
  membership test (a Mongoose array compares ids by value).
\<close>

definition freshId :: "db \<Rightarrow> oid" where
  "freshId d = Suc (foldr max (map fst (requests d)) 0)"

definition createClassRequest :: "req \<Rightarrow> db \<Rightarrow> (error + classRequest) \<times> db" where
  "createClassRequest rq d =
     (if validationErrors rq \<noteq> [] then (Inl (Validation (validationErrors rq)), d)
      else case find (\<lambda>(sid, s). userId s = user_id rq) (students d) of
        None \<Rightarrow> (Inl (NotFound ''Student profile not found''), d)
      | Some (sid, s) \<Rightarrow>
          if student_status s \<noteq> ''Approved''
          then (Inl (InvalidState
                  ''Student registration must be approved before requesting class enrollment''), d)
          else (case map_of (classes d) (body_classId rq) of
                  None \<Rightarrow> (Inl (NotFound ''Class not found''), d)
                | Some c \<Rightarrow>
                    if \<not> isActive c \<or> class_type c \<noteq> ''Normal''
                    then (Inl (InvalidState ''Class is not available for enrollment''), d)
                    else if (case enrolledClasses s of
                               None \<Rightarrow> False
                             | Some ys \<Rightarrow> body_classId rq \<in> set ys)
                    then (Inl (InvalidState ''Already enrolled in this class''), d)
                    else if find (\<lambda>(rid, cr). student cr = sid \<and> class_id cr = body_classId rq \<and>
                                              status cr = Pending) (requests d) \<noteq> None
                    then (Inl (InvalidState ''You already have a pending request for this class''), d)
                    else (Inr \<lparr>student = sid, class_id = body_classId rq,
                               reason = body_reason rq, status = Pending, adminResponse = None\<rparr>,
                          save_request (freshId d)
                            \<lparr>student = sid, class_id = body_classId rq,
                             reason = body_reason rq, status = Pending, adminResponse = None\<rparr> d)))"

subsection \<open>approveClassRequest (lines 178-273)\<close>

definition approveClassRequest :: "env \<Rightarrow> req \<Rightarrow> db \<Rightarrow> (error + classRequest) \<times> db" where
  "approveClassRequest e rq d =
     (if validationErrors rq \<noteq> [] then (Inl (Validation (validationErrors rq)), d)
      else case map_of (requests d) (requestId rq) of
        None \<Rightarrow> (Inl (NotFound ''Class request not found''), d)
      | Some cr \<Rightarrow>
          if status cr \<noteq> Pending then (Inl (InvalidState ''Class request is not pending''), d)
          else
            let s_opt = map_of (students d) (student cr);
                c_opt = map_of (classes d) (class_id cr)
            in (case c_opt of
                  None \<Rightarrow> (Inl ServerError, console_error ''err.message'' d)
                | Some c \<Rightarrow>
                    (case capacityFull c (populated_id (student cr) s_opt) of
                       None \<Rightarrow> (Inl ServerError, console_error ''err.message'' d)
                     | Some full \<Rightarrow>
                         if full then (Inl CapacityExceeded, d)
                         else
                           (let cr' = cr\<lparr>status := Approved,
                                         adminResponse := Some \<lparr>actionBy = user_id rq,
                                           actionDate = now e,
                                           actionNote = noteOr (adminNote rq) ''Request approved''\<rparr>\<rparr>;
                                d1 = save_request (requestId rq) cr' d
                            in (case enroll cr' s_opt c d1 of
                                  None \<Rightarrow>
                                    (Inl EnrollFailed,
                                     console_error ''Error enrolling student in class:'' d1)
                                | Some d2 \<Rightarrow>
                                    (Inr cr',
                                     tryDispatch e ''Error creating notification:''
                                       (mkNotification ''class_request_approved'' userId
                                          (\<lambda>c. ''Your request to join '' @ grade c @ '' - '' @
                                                category c @ '' class has been approved.'')
                                          (requestId rq) cr' s_opt c_opt) d2))))))"

subsection \<open>rejectClassRequest (lines 276-332)\<close>

text \<open>
  The notification call of this handler stands directly in the outer \<open>try\<close>: when it
  throws, the outer \<open>catch\<close> answers 500, after the request was saved as Rejected.
\<close>

definition rejectClassRequest :: "env \<Rightarrow> req \<Rightarrow> db \<Rightarrow> (error + classRequest) \<times> db" where
  "rejectClassRequest e rq d =
     (if validationErrors rq \<noteq> [] then (Inl (Validation (validationErrors rq)), d)
      else case map_of (requests d) (requestId rq) of
        None \<Rightarrow> (Inl (NotFound ''Class request not found''), d)
      | Some cr \<Rightarrow>
          if status cr \<noteq> Pending then (Inl (InvalidState ''Class request is not pending''), d)
          else
            let s_opt = map_of (students d) (student cr);
                c_opt = map_of (classes d) (class_id cr);
                cr' = cr\<lparr>status := Rejected,
                         adminResponse := Some \<lparr>actionBy = user_id rq,
                           actionDate = now e,
                           actionNote = noteOr (adminNote rq) ''Request rejected''\<rparr>\<rparr>;
                d1 = save_request (requestId rq) cr' d
            in (case dispatch e
                       (mkNotification ''class_request_rejected'' userId
                          (\<lambda>c. ''Your request to join '' @ grade c @ '' - '' @ category c @
                                '' class has been reviewed. Please contact administration for more information.'')
                          (requestId rq) cr' s_opt c_opt) d1 of
                  None \<Rightarrow> (Inl ServerError, console_error ''err.message'' d1)
                | Some d2 \<Rightarrow> (Inr cr', d2)))"

subsection \<open>changeClassRequestStatus (lines 335-465)\<close>

text \<open>
  Lines 362-389: the removal on leaving Approved. Each \<open>filter\<close> is saved only when it
  shortened the array; a TypeError ends the block in its own \<open>catch\<close>, which logs and
  lets the status change go on.
\<close>

definition removeStudentFromClass ::
  "classRequest \<Rightarrow> studentDoc option \<Rightarrow> classDoc option \<Rightarrow> db \<Rightarrow> db option" where
  "removeStudentFromClass cr s_opt c_opt d =
     (case c_opt of
        None \<Rightarrow> Some d
      | Some c \<Rightarrow>
          (case enrolledStudents c of
             None \<Rightarrow> Some d
           | Some xs \<Rightarrow>
               (case filter_out xs (populated_id (student cr) s_opt) of
                  None \<Rightarrow> None
                | Some xs' \<Rightarrow>
                    if length xs \<noteq> length xs'
                    then Some (save_class (class_id cr) (c\<lparr>enrolledStudents := Some xs'\<rparr>) d)
                    else Some d)))"

definition removeClassFromStudent ::
  "classRequest \<Rightarrow> studentDoc option \<Rightarrow> classDoc option \<Rightarrow> db \<Rightarrow> db option" where
  "removeClassFromStudent cr s_opt c_opt d =
     (case s_opt of
        None \<Rightarrow> Some d
      | Some s \<Rightarrow>
          (case enrolledClasses s of
             None \<Rightarrow> Some d
           | Some ys \<Rightarrow>
               (case filter_out ys (populated_id (class_id cr) c_opt) of
                  None \<Rightarrow> None
                | Some ys' \<Rightarrow>
                    if length ys \<noteq> length ys'
                    then Some (save_student (student cr) (s\<lparr>enrolledClasses := Some ys'\<rparr>) d)
                    else Some d)))"

definition removeMembership ::
  "classRequest \<Rightarrow> studentDoc option \<Rightarrow> classDoc option \<Rightarrow> db \<Rightarrow> db" where
  "removeMembership cr s_opt c_opt d =
     (case removeStudentFromClass cr s_opt c_opt d of
        None \<Rightarrow> console_error ''Error removing student from class:'' d
      | Some d1 \<Rightarrow>
          (case removeClassFromStudent cr s_opt c_opt d1 of
             None \<Rightarrow> console_error ''Error removing student from class:'' d1
           | Some d2 \<Rightarrow> d2))"

text \<open>Lines 427-460: the status update, its save, the notification and the answer.\<close>

definition updateStatus ::
  "env \<Rightarrow> req \<Rightarrow> classRequest \<Rightarrow> studentDoc option \<Rightarrow> classDoc option \<Rightarrow> db \<Rightarrow>
   (error + classRequest) \<times> db" where
  "updateStatus e rq cr s_opt c_opt d =
     (let cr' = cr\<lparr>status := body_status rq,
                  adminResponse := Some \<lparr>actionBy = user_id rq,
                    actionDate = now e,
                    actionNote = noteOr (adminNote rq)
                      (''Status changed from '' @ statusName (status cr) @ '' to '' @
                       statusName (body_status rq))\<rparr>\<rparr>;
          d1 = save_request (requestId rq) cr' d
      in (Inr cr',
          tryDispatch e ''Error creating notification:''
            (mkNotification ''class_request_status_change'' userId
               (\<lambda>c. ''Your class enrollment request status has been updated to '' @
                     statusName (body_status rq) @ ''.'')
               (requestId rq) cr' s_opt c_opt) d1))"

definition changeClassRequestStatus :: "env \<Rightarrow> req \<Rightarrow> db \<Rightarrow> (error + classRequest) \<times> db" where
  "changeClassRequestStatus e rq d =
     (if validationErrors rq \<noteq> []
      then (Inl (Validation (validationErrors rq)), console_error ''Validation errors:'' d)
      else case map_of (requests d) (requestId rq) of
        None \<Rightarrow> (Inl (NotFound ''Class request not found''), d)
      | Some cr \<Rightarrow>
          let s_opt = map_of (students d) (student cr);
              c_opt = map_of (classes d) (class_id cr);
              oldStatus = status cr
          in if oldStatus = Approved \<and> body_status rq \<noteq> Approved
             then updateStatus e rq cr s_opt c_opt (removeMembership cr s_opt c_opt d)
             else if oldStatus \<noteq> Approved \<and> body_status rq = Approved
             then (case c_opt of
                     None \<Rightarrow> (Inl EnrollFailed, console_error ''Error adding student to class:'' d)
                   | Some c \<Rightarrow>
                       (case capacityFull c (populated_id (student cr) s_opt) of
                          None \<Rightarrow>
                            (Inl EnrollFailed, console_error ''Error adding student to class:'' d)
                        | Some full \<Rightarrow>
                            if full then (Inl CapacityExceeded, d)
                            else (case enroll cr s_opt c d of
                                    None \<Rightarrow>
                                      (Inl EnrollFailed,
                                       console_error ''Error adding student to class:'' d)
                                  | Some d1 \<Rightarrow> updateStatus e rq cr s_opt c_opt d1)))
             else updateStatus e rq cr s_opt c_opt d)"

subsection \<open>approveAllPendingRequests (lines 468-586)\<close>

text \<open>
  One round of the loop (lines 495-569). \<open>Threw\<close>: a TypeError was raised in the round.
  With the stores reliable, a TypeError comes from a \<open>null\<close> student or class only, and
  then the round's own \<open>catch\<close> block raises again (its log line reads
  \<open>classRequest.student._id\<close>, its failure entry reads \<open>classRequest.class.grade\<close>),
  so the error leaves the loop.
\<close>

datatype item_result = Threw | Failed failedRequest | Done

definition itemThrew :: "studentDoc option \<Rightarrow> db \<Rightarrow> item_result \<times> db" where
  "itemThrew s_opt d =
     (case s_opt of
        None \<Rightarrow> (Threw, d)
      | Some _ \<Rightarrow> (Threw, console_error ''Error approving request for student'' d))"

definition approveOne :: "env \<Rightarrow> req \<Rightarrow> oid \<Rightarrow> classRequest \<Rightarrow> db \<Rightarrow> item_result \<times> db" where
  "approveOne e rq rid cr d =
     (let s_opt = map_of (students d) (student cr);
          c_opt = map_of (classes d) (class_id cr)
      in case c_opt of
           None \<Rightarrow> itemThrew s_opt d
         | Some c \<Rightarrow>
             (case capacityFull c (populated_id (student cr) s_opt) of
                None \<Rightarrow> itemThrew s_opt d
              | Some full \<Rightarrow>
                  if full
                  then (case s_opt of
                          None \<Rightarrow> itemThrew s_opt d
                        | Some s \<Rightarrow>
                            (Failed \<lparr>studentName = firstName s @ '' '' @ lastName s,
                                     className = grade c @ '' - '' @ category c,
                                     failReason = ''Class is at full capacity''\<rparr>, d))
                  else (case enroll cr s_opt c d of
                          None \<Rightarrow> itemThrew s_opt d
                        | Some d1 \<Rightarrow>
                            let cr' = cr\<lparr>status := Approved,
                                         adminResponse := Some \<lparr>actionBy = user_id rq,
                                           actionDate = now e,
                                           actionNote = noteOr (adminNote rq)
                                             ''Bulk approval by administrator''\<rparr>\<rparr>;
                                d2 = save_request rid cr' d1
                            in (Done,
                                tryDispatch e ''Error creating notification:''
                                  (mkNotification ''class_request_approved'' userId
                                     (\<lambda>c. ''Your class enrollment request for '' @ grade c @
                                           '' - '' @ category c @ '' has been approved.'')
                                     rid cr' s_opt c_opt) d2))))"

text \<open>
  The \<open>for\<close> loop over the snapshot, with the counters and the failure list it
  accumulates. \<open>None\<close>: an error left the loop.
\<close>

fun approveLoop ::
  "env \<Rightarrow> req \<Rightarrow> (oid \<times> classRequest) list \<Rightarrow> nat \<Rightarrow> nat \<Rightarrow> failedRequest list \<Rightarrow> db \<Rightarrow>
   (nat \<times> nat \<times> failedRequest list) option \<times> db" where
  "approveLoop e rq [] approved failed fs d = (Some (approved, failed, fs), d)"
| "approveLoop e rq ((rid, cr) # rest) approved failed fs d =
     (case approveOne e rq rid cr d of
        (Threw, d') \<Rightarrow> (None, d')
      | (Failed f, d') \<Rightarrow> approveLoop e rq rest approved (failed + 1) (fs @ [f]) d'
      | (Done, d') \<Rightarrow> approveLoop e rq rest (approved + 1) failed fs d')"

definition pendingRequests :: "db \<Rightarrow> (oid \<times> classRequest) list" where
  "pendingRequests d = filter (\<lambda>(rid, cr). status cr = Pending) (requests d)"

definition approveAllPendingRequests :: "env \<Rightarrow> req \<Rightarrow> db \<Rightarrow> (error + bulkResponse) \<times> db" where
  "approveAllPendingRequests e rq d =
     (if validationErrors rq \<noteq> []
      then (Inl (Validation (validationErrors rq)), console_error ''Validation errors:'' d)
      else if length (pendingRequests d) = 0
      then (Inl (InvalidState ''No pending class requests found''), d)
      else case approveLoop e rq (pendingRequests d) 0 0 [] d of
             (None, d') \<Rightarrow>
               (Inl ServerError, console_error ''Error in approveAllPendingRequests:'' d')
           | (Some (approved, failed, fs), d') \<Rightarrow>
               (Inr \<lparr>approvedCount = approved, failedCount = failed,
                     failedRequests = (if failed > 0 then Some fs else None)\<rparr>, d'))"

subsection \<open>deleteClassRequest (lines 589-627)\<close>

definition deleteClassRequest :: "req \<Rightarrow> db \<Rightarrow> (error + unit) \<times> db" where
  "deleteClassRequest rq d =
     (case find (\<lambda>(sid, s). userId s = user_id rq) (students d) of
        None \<Rightarrow> (Inl (NotFound ''Student profile not found''), d)
      | Some (sid, s) \<Rightarrow>
          (case map_of (requests d) (requestId rq) of
             None \<Rightarrow> (Inl (NotFound ''Class request not found''), d)
           | Some cr \<Rightarrow>
               if student cr \<noteq> sid then (Inl Forbidden, d)
               else if status cr \<noteq> Pending
               then (Inl (InvalidState ''You can only delete pending class requests''), d)
               else (Inr (), d\<lparr>requests := AList.delete (requestId rq) (requests d)\<rparr>)))"

subsection \<open>adminDeleteClassRequest (lines 630-701)\<close>

text \<open>
  Lines 645-666: the removal for an Approved request. Unlike the removal of
  \<open>changeClassRequestStatus\<close> it reads the two documents again by id and saves them
  whether or not the filter removed anything.
\<close>

definition adminRemoveStudent ::
  "classRequest \<Rightarrow> studentDoc option \<Rightarrow> classDoc option \<Rightarrow> db \<Rightarrow> db option" where
  "adminRemoveStudent cr s_opt c_opt d =
     (case populated_id (class_id cr) c_opt of
        None \<Rightarrow> None
      | Some cid \<Rightarrow>
          (case map_of (classes d) cid of
             None \<Rightarrow> Some d
           | Some classItem \<Rightarrow>
               (case enrolledStudents classItem of
                  None \<Rightarrow> Some d
                | Some xs \<Rightarrow>
                    (case filter_out xs (populated_id (student cr) s_opt) of
                       None \<Rightarrow> None
                     | Some xs' \<Rightarrow>
                         Some (save_class cid (classItem\<lparr>enrolledStudents := Some xs'\<rparr>) d)))))"

definition adminRemoveClass ::
  "classRequest \<Rightarrow> studentDoc option \<Rightarrow> classDoc option \<Rightarrow> db \<Rightarrow> db option" where
  "adminRemoveClass cr s_opt c_opt d =
     (case populated_id (student cr) s_opt of
        None \<Rightarrow> None
      | Some sid \<Rightarrow>
          (case map_of (students d) sid of
             None \<Rightarrow> Some d
           | Some stu \<Rightarrow>
               (case enrolledClasses stu of
                  None \<Rightarrow> Some d
                | Some ys \<Rightarrow>
                    (case filter_out ys (populated_id (class_id cr) c_opt) of
                       None \<Rightarrow> None
                     | Some ys' \<Rightarrow>
                         Some (save_student sid (stu\<lparr>enrolledClasses := Some ys'\<rparr>) d)))))"

definition adminRemoveMembership ::
  "classRequest \<Rightarrow> studentDoc option \<Rightarrow> classDoc option \<Rightarrow> db \<Rightarrow> db" where
  "adminRemoveMembership cr s_opt c_opt d =
     (case adminRemoveStudent cr s_opt c_opt d of
        None \<Rightarrow> console_error ''Error removing student from class during deletion:'' d
      | Some d1 \<Rightarrow>
          (case adminRemoveClass cr s_opt c_opt d1 of
             None \<Rightarrow> console_error ''Error removing student from class during deletion:'' d1
           | Some d2 \<Rightarrow> d2))"

text \<open>
  The student is populated with \<open>firstName lastName studentId\<close> only, so the recipient
  \<open>student.userId || student._id\<close> of the notification is the student's \<open>_id\<close>.
  The answer is built after the request is deleted, from the populated student and class.
\<close>

definition adminDeleteClassRequest :: "env \<Rightarrow> req \<Rightarrow> db \<Rightarrow> (error + deletedRequest) \<times> db" where
  "adminDeleteClassRequest e rq d =
     (case map_of (requests d) (requestId rq) of
        None \<Rightarrow> (Inl (NotFound ''Class request not found''), d)
      | Some cr \<Rightarrow>
          let s_opt = map_of (students d) (student cr);
              c_opt = map_of (classes d) (class_id cr);
              d1 = (if status cr = Approved then adminRemoveMembership cr s_opt c_opt d else d);
              d2 = tryDispatch e ''Error creating notification for deleted class request:''
                     (mkNotification ''general'' (\<lambda>s. student cr)
                        (\<lambda>c. ''Your class enrollment request for '' @ grade c @ '' - '' @
                              category c @ '' has been deleted by an administrator.'')
                        (requestId rq) cr s_opt c_opt) d1;
              d3 = d2\<lparr>requests := AList.delete (requestId rq) (requests d2)\<rparr>
          in (case s_opt of
                None \<Rightarrow> (Inl ServerError, console_error ''Error in adminDeleteClassRequest:'' d3)
              | Some s \<Rightarrow>
                  (case c_opt of
                     None \<Rightarrow>
                       (Inl ServerError, console_error ''Error in adminDeleteClassRequest:'' d3)
                   | Some c \<Rightarrow>
                       (Inr \<lparr>deleted_studentName = firstName s @ '' '' @ lastName s,
                             deleted_className = grade c @ '' - '' @ category c,
                             deleted_status = status cr\<rparr>, d3))))"

subsection \<open>Sequences of coordinator operations\<close>

datatype op =
    Create req
  | Approve env req
  | Reject env req
  | ChangeStatus env req
  | ApproveAllPending env req
  | Delete req
  | AdminDelete env req

fun step :: "op \<Rightarrow> db \<Rightarrow> db" where
  "step (Create rq) d = snd (createClassRequest rq d)"
| "step (Approve e rq) d = snd (approveClassRequest e rq d)"
| "step (Reject e rq) d = snd (rejectClassRequest e rq d)"
| "step (ChangeStatus e rq) d = snd (changeClassRequestStatus e rq d)"
| "step (ApproveAllPending e rq) d = snd (approveAllPendingRequests e rq d)"
| "step (Delete rq) d = snd (deleteClassRequest rq d)"
| "step (AdminDelete e rq) d = snd (adminDeleteClassRequest e rq d)"

definition run :: "op list \<Rightarrow> db \<Rightarrow> db" where
  "run ops d = fold step ops d"

subsection \<open>What the properties speak about\<close>

text \<open>The two membership lists as the store holds them (empty when absent).\<close>

definition studentList :: "classDoc \<Rightarrow> oid list" where
  "studentList c = (case enrolledStudents c of None \<Rightarrow> [] | Some xs \<Rightarrow> xs)"

definition classList :: "studentDoc \<Rightarrow> oid list" where
  "classList s = (case enrolledClasses s of None \<Rightarrow> [] | Some ys \<Rightarrow> ys)"

definition studentsOf :: "db \<Rightarrow> oid \<Rightarrow> oid list" where
  "studentsOf d c = (case map_of (classes d) c of None \<Rightarrow> [] | Some cd \<Rightarrow> studentList cd)"

definition classesOf :: "db \<Rightarrow> oid \<Rightarrow> oid list" where
  "classesOf d s = (case map_of (students d) s of None \<Rightarrow> [] | Some sd \<Rightarrow> classList sd)"

text \<open>The capacity invariant: no class holds more students than its capacity.\<close>

definition capacity_ok :: "db \<Rightarrow> bool" where
  "capacity_ok d = list_all (\<lambda>(cid, c). int (length (studentList c)) \<le> capacity c) (classes d)"

text \<open>
  The writes to the two membership lists that the handlers are made of: a push of an
  absent student into a class with room, a push of an absent class, a filter of either
  list, and any change that touches neither collection.
\<close>

inductive writes :: "db \<Rightarrow> db \<Rightarrow> bool" where
  frame: "classes d' = classes d \<Longrightarrow> students d' = students d \<Longrightarrow> writes d d'"
| push_student:
    "map_of (classes d) cid = Some c \<Longrightarrow> s \<notin> set (studentList c) \<Longrightarrow>
     int (length (studentList c)) < capacity c \<Longrightarrow> students d' = students d \<Longrightarrow>
     classes d' = AList.update cid (c\<lparr>enrolledStudents := Some (studentList c @ [s])\<rparr>) (classes d) \<Longrightarrow>
     writes d d'"
| push_class:
    "map_of (students d) sid = Some sd \<Longrightarrow> c \<notin> set (classList sd) \<Longrightarrow>
     classes d' = classes d \<Longrightarrow>
     students d' = AList.update sid (sd\<lparr>enrolledClasses := Some (classList sd @ [c])\<rparr>) (students d) \<Longrightarrow>
     writes d d'"
| filter_students:
    "map_of (classes d) cid = Some c \<Longrightarrow> students d' = students d \<Longrightarrow>
     classes d' = AList.update cid
        (c\<lparr>enrolledStudents := Some (filter (\<lambda>i. i \<noteq> t) (studentList c))\<rparr>) (classes d) \<Longrightarrow>
     writes d d'"
| filter_classes:
    "map_of (students d) sid = Some sd \<Longrightarrow> classes d' = classes d \<Longrightarrow>
     students d' = AList.update sid
        (sd\<lparr>enrolledClasses := Some (filter (\<lambda>i. i \<noteq> t) (classList sd))\<rparr>) (students d) \<Longrightarrow>
     writes d d'"
| seq: "writes d d1 \<Longrightarrow> writes d1 d2 \<Longrightarrow> writes d d2"

text \<open>
  The bidirectional membership of a request's student in its class, and the two outcomes
  of a request of the bulk snapshot, read off the store \<open>d'\<close> after the call: approved
  (the request is Approved, for the same student and class, and the membership exists), or
  refused for capacity (the request is as it was, the student is not in the class's list
  and the list has reached the capacity).
\<close>

definition membership :: "db \<Rightarrow> classRequest \<Rightarrow> bool" where
  "membership d cr \<longleftrightarrow>
     student cr \<in> set (studentsOf d (class_id cr)) \<and> class_id cr \<in> set (classesOf d (student cr))"

definition approved_in :: "db \<Rightarrow> oid \<times> classRequest \<Rightarrow> bool" where
  "approved_in d' p =
     (case p of (rid, cr) \<Rightarrow>
        (case map_of (requests d') rid of
           None \<Rightarrow> False
         | Some cr' \<Rightarrow>
             status cr' = Approved \<and> student cr' = student cr \<and> class_id cr' = class_id cr) \<and>
        membership d' cr)"

definition refused_in :: "db \<Rightarrow> oid \<times> classRequest \<Rightarrow> bool" where
  "refused_in d' p =
     (case p of (rid, cr) \<Rightarrow>
        map_of (requests d') rid = Some cr \<and> status cr = Pending \<and>
        (case map_of (classes d') (class_id cr) of
           None \<Rightarrow> False
         | Some c \<Rightarrow>
             student cr \<notin> set (studentList c) \<and> capacity c \<le> int (length (studentList c))))"

text \<open>
  The specification's reading of a bulk approval, written from its words and not from the
  handler: the snapshot is gone through in order; a request whose student is already in the
  class's list passes; otherwise it is refused when the list, as the earlier requests of the
  snapshot left it, has reached the capacity, and else the student joins the list.
  \<open>spec_refused\<close> gives the requests that exceed the remaining capacity, from the
  capacities and the lists at call time.
\<close>

definition capacityOf :: "db \<Rightarrow> oid \<Rightarrow> int" where
  "capacityOf d c = (case map_of (classes d) c of None \<Rightarrow> 0 | Some cd \<Rightarrow> capacity cd)"

fun spec_refused ::
  "(oid \<Rightarrow> int) \<Rightarrow> (oid \<Rightarrow> oid list) \<Rightarrow> (oid \<times> classRequest) list \<Rightarrow>
   (oid \<times> classRequest) list" where
  "spec_refused cap enrolled [] = []"
| "spec_refused cap enrolled ((rid, cr) # ps) =
     (if student cr \<in> set (enrolled (class_id cr)) then spec_refused cap enrolled ps
      else if cap (class_id cr) \<le> int (length (enrolled (class_id cr)))
      then (rid, cr) # spec_refused cap enrolled ps
      else spec_refused cap (enrolled(class_id cr := enrolled (class_id cr) @ [student cr])) ps)"

text \<open>
  Every request of the list names a student and a class that exist (populate gives no
  \<open>null\<close>).
\<close>

definition references_exist :: "db \<Rightarrow> (oid \<times> classRequest) list \<Rightarrow> bool" where
  "references_exist d ps =
     list_all (\<lambda>(rid, cr). map_of (students d) (student cr) \<noteq> None \<and>
                            map_of (classes d) (class_id cr) \<noteq> None) ps"

text \<open>
  How the bulk handler moves the two collections: documents stay, capacities stay, the
  lists only gain entries, and the list of a class that has reached its capacity stays
  as it is.
\<close>

definition grows :: "db \<Rightarrow> db \<Rightarrow> bool" where
  "grows d d' \<longleftrightarrow>
     (\<forall>c cd. map_of (classes d) c = Some cd \<longrightarrow>
        (\<exists>cd'. map_of (classes d') c = Some cd' \<and> capacity cd' = capacity cd \<and>
           set (studentList cd) \<subseteq> set (studentList cd') \<and>
           (capacity cd \<le> int (length (studentList cd)) \<longrightarrow> studentList cd' = studentList cd))) \<and>
     (\<forall>s sd. map_of (students d) s = Some sd \<longrightarrow>
        (\<exists>sd'. map_of (students d') s = Some sd' \<and> set (classList sd) \<subseteq> set (classList sd')))"

text \<open>
  The relationship invariant: every Approved request has its membership in both lists.
\<close>

definition relationship_ok :: "db \<Rightarrow> bool" where
  "relationship_ok d =
     list_all (\<lambda>(rid, cr). status cr = Approved \<longrightarrow> membership d cr) (requests d)"

text \<open>
  The membership is kept per student and class, whereas several requests may name the same
  student and class (\<open>createClassRequest\<close> refuses a second request only while the first
  is Pending or the student is enrolled). \<open>other_approved d rid cr\<close>: a request of the
  store other than \<open>rid\<close> is Approved and names the student and the class of \<open>cr\<close>.
  \<open>shared_removal op d\<close>: in the store \<open>d\<close>, the operation takes a request out of
  Approved (a \<open>changeClassRequestStatus\<close> that passes validation, of an Approved request
  to another status, or an \<open>adminDeleteClassRequest\<close> of an Approved request) while
  another Approved request names the same student and class.
\<close>

definition other_approved :: "db \<Rightarrow> oid \<Rightarrow> classRequest \<Rightarrow> bool" where
  "other_approved d rid cr =
     list_ex (\<lambda>(rid', cr'). rid' \<noteq> rid \<and> status cr' = Approved \<and>
                student cr' = student cr \<and> class_id cr' = class_id cr) (requests d)"

fun shared_removal :: "op \<Rightarrow> db \<Rightarrow> bool" where
  "shared_removal (ChangeStatus e rq) d =
     (validationErrors rq = [] \<and> body_status rq \<noteq> Approved \<and>
      (case map_of (requests d) (requestId rq) of
         None \<Rightarrow> False
       | Some cr \<Rightarrow> status cr = Approved \<and> other_approved d (requestId rq) cr))"
| "shared_removal (AdminDelete e rq) d =
     (case map_of (requests d) (requestId rq) of
        None \<Rightarrow> False
      | Some cr \<Rightarrow> status cr = Approved \<and> other_approved d (requestId rq) cr)"
| "shared_removal _ d = False"

text \<open>
  \<open>no_shared_removal\<close>: no operation of the sequence is a shared removal in the store it
  is run on. \<open>after_every\<close>: a condition on the store after each operation of a sequence.
\<close>

fun no_shared_removal :: "op list \<Rightarrow> db \<Rightarrow> bool" where
  "no_shared_removal [] d = True"
| "no_shared_removal (op # ops) d = (\<not> shared_removal op d \<and> no_shared_removal ops (step op d))"

fun after_every :: "(db \<Rightarrow> bool) \<Rightarrow> op list \<Rightarrow> db \<Rightarrow> bool" where
  "after_every Q [] d = True"
| "after_every Q (op # ops) d = (Q (step op d) \<and> after_every Q ops (step op d))"

text \<open>
  \<open>good\<close> puts in terms of lookups: the request ids are unique, the student and the class
  of every request exist, and every Approved request has its membership.
\<close>

definition good :: "db \<Rightarrow> bool" where
  "good d \<longleftrightarrow>
     distinct (map fst (requests d)) \<and>
     (\<forall>rid cr. map_of (requests d) rid = Some cr \<longrightarrow>
        map_of (students d) (student cr) \<noteq> None \<and> map_of (classes d) (class_id cr) \<noteq> None) \<and>
     (\<forall>rid cr. map_of (requests d) rid = Some cr \<longrightarrow> status cr = Approved \<longrightarrow> membership d cr)"

text \<open>Two stores with the same three collections (they may differ in notifications and log).\<close>

definition same_store :: "db \<Rightarrow> db \<Rightarrow> bool" where
  "same_store d d' \<longleftrightarrow> requests d = requests d' \<and> students d = students d' \<and> classes d = classes d'"

subsection \<open>Example stores\<close>

text \<open>
  Concrete inputs on which the theorems below are instantiated. \<open>store0\<close>: student 10
  has a rejected request (1) and a pending request (2) for class 20, student 11 has a pending
  request (3) for it; the class has one place and nobody in it.
\<close>

definition sink_up :: env where
  "sink_up = \<lparr>now = 7, createNotification_ok = (\<lambda>_. True)\<rparr>"

definition sink_down :: env where
  "sink_down = \<lparr>now = 7, createNotification_ok = (\<lambda>_. False)\<rparr>"

definition admin_req :: "oid \<Rightarrow> status \<Rightarrow> req" where
  "admin_req rid st =
     \<lparr>validationErrors = [], user_id = 99, requestId = rid, body_classId = 0, body_reason = [],
      body_status = st, adminNote = None\<rparr>"

definition student_req :: "oid \<Rightarrow> oid \<Rightarrow> req" where
  "student_req u rid =
     \<lparr>validationErrors = [], user_id = u, requestId = rid, body_classId = 20,
      body_reason = ''please'', body_status = Pending, adminNote = None\<rparr>"

definition request_of :: "oid \<Rightarrow> oid \<Rightarrow> status \<Rightarrow> classRequest" where
  "request_of s c st =
     \<lparr>student = s, class_id = c, reason = ''please'', status = st, adminResponse = None\<rparr>"

definition student10 :: "oid list option \<Rightarrow> studentDoc" where
  "student10 ys = \<lparr>userId = 100, firstName = ''Ada'', lastName = ''Perera'',
                   student_status = ''Approved'', enrolledClasses = ys\<rparr>"

definition student11 :: "oid list option \<Rightarrow> studentDoc" where
  "student11 ys = \<lparr>userId = 101, firstName = ''Bo'', lastName = ''Silva'',
                   student_status = ''Approved'', enrolledClasses = ys\<rparr>"

definition class20 :: "oid list option \<Rightarrow> classDoc" where
  "class20 xs = \<lparr>grade = ''Grade 9'', category = ''Maths'', class_type = ''Normal'',
                 isActive = True, capacity = 1, enrolledStudents = xs\<rparr>"

definition store0 :: db where
  "store0 =
     \<lparr>requests = [(1, request_of 10 20 Rejected), (2, request_of 10 20 Pending),
                  (3, request_of 11 20 Pending)],
      students = [(10, student10 (Some [])), (11, student11 None)],
      classes = [(20, class20 (Some []))],
      notifications = [], console = []\<rparr>"

text \<open>\<open>store_full\<close>: as \<open>store0\<close>, with request 2 approved and student 10 in the class.\<close>

definition store_full :: db where
  "store_full =
     \<lparr>requests = [(1, request_of 10 20 Rejected), (2, request_of 10 20 Approved),
                  (3, request_of 11 20 Pending)],
      students = [(10, student10 (Some [20])), (11, student11 None)],
      classes = [(20, class20 (Some [10]))],
      notifications = [], console = []\<rparr>"

text \<open>\<open>store_member\<close>: student 10 is in class 20 and has a pending request for it.\<close>

definition store_member :: db where
  "store_member = store_full\<lparr>requests := [(1, request_of 10 20 Pending)]\<rparr>"

text \<open>\<open>store_two\<close>: as \<open>store0\<close>, with two places in the class.\<close>

definition store_two :: db where
  "store_two = store0\<lparr>classes := [(20, (class20 (Some []))\<lparr>capacity := 2\<rparr>)]\<rparr>"

text \<open>
  \<open>store_dangling\<close>: two pending requests, the second for a class 21 that does not
  exist.
\<close>

definition store_dangling :: db where
  "store_dangling = store0\<lparr>requests := [(2, request_of 10 20 Pending), (3, request_of 11 21 Pending)]\<rparr>"

text \<open>
  \<open>store_unique\<close>: one request per student and class, request 2 approved with its
  membership, request 3 pending.
\<close>

definition store_unique :: db where
  "store_unique =
     store_full\<lparr>requests := [(2, request_of 10 20 Approved), (3, request_of 11 20 Pending)]\<rparr>"

text \<open>
  \<open>store_shared\<close>: as \<open>store_full\<close>, with requests 1 and 2 of student 10 for class 20
  both Approved.
\<close>

definition store_shared :: db where
  "store_shared =
     store_full\<lparr>requests := [(1, request_of 10 20 Approved), (2, request_of 10 20 Approved),
                             (3, request_of 11 20 Pending)]\<rparr>"

text \<open>
  \<open>store_orphan\<close>: one pending request, of a student 12 that does not exist, for class 20.
\<close>

definition store_orphan :: db where
  "store_orphan = store0\<lparr>requests := [(4, request_of 12 20 Pending)]\<rparr>"

text \<open>
  \<open>sample_ops\<close>: a sequence of operations on \<open>store_unique\<close>. Request 2 is changed to
  Rejected, student 10 (user 100) asks again for class 20, request 3 is approved, the bulk
  approval refuses the new request for capacity, request 3 is deleted by an admin, and the
  bulk approval then approves the new request.
\<close>

definition sample_ops :: "op list" where
  "sample_ops = [ChangeStatus sink_up (admin_req 2 Rejected), Create (student_req 100 0),
           Approve sink_down (admin_req 3 Approved),
           ApproveAllPending sink_up (admin_req 0 Approved),
           AdminDelete sink_up (admin_req 3 Approved),
           ApproveAllPending sink_up (admin_req 0 Approved)]"

lemmas example_defs =
  sink_up_def sink_down_def admin_req_def student_req_def request_of_def student10_def student11_def
  class20_def store0_def store_full_def

section \<open>Properties\<close>

subsection \<open>What each helper leaves alone\<close>

lemma console_error_fields [simp]:
  "requests (console_error m d) = requests d"
  "students (console_error m d) = students d"
  "classes (console_error m d) = classes d"
  "notifications (console_error m d) = notifications d"
  "console (console_error m d) = console d @ [m]"
  by (simp_all add: console_error_def)

lemma save_request_fields [simp]:
  "requests (save_request i r d) = AList.update i r (requests d)"
  "students (save_request i r d) = students d"
  "classes (save_request i r d) = classes d"
  "notifications (save_request i r d) = notifications d"
  "console (save_request i r d) = console d"
  by (simp_all add: save_request_def)

lemma save_class_fields [simp]:
  "requests (save_class i c d) = requests d"
  "students (save_class i c d) = students d"
  "classes (save_class i c d) = AList.update i c (classes d)"
  "notifications (save_class i c d) = notifications d"
  "console (save_class i c d) = console d"
  by (simp_all add: save_class_def)

lemma save_student_fields [simp]:
  "requests (save_student i s d) = requests d"
  "students (save_student i s d) = AList.update i s (students d)"
  "classes (save_student i s d) = classes d"
  "notifications (save_student i s d) = notifications d"
  "console (save_student i s d) = console d"
  by (simp_all add: save_student_def)

lemma tryDispatch_fields [simp]:
  "requests (tryDispatch e l n d) = requests d"
  "students (tryDispatch e l n d) = students d"
  "classes (tryDispatch e l n d) = classes d"
  by (auto simp: tryDispatch_def dispatch_def split: option.splits)

lemma updateStatus_result:
  "\<exists>cr' d'. updateStatus e rq cr s_opt c_opt d = (Inr cr', d') \<and>
     cr' = cr\<lparr>status := body_status rq,
              adminResponse := Some \<lparr>actionBy = user_id rq, actionDate = now e,
                actionNote = noteOr (adminNote rq)
                  (''Status changed from '' @ statusName (status cr) @ '' to '' @
                   statusName (body_status rq))\<rparr>\<rparr> \<and>
     requests d' = AList.update (requestId rq) cr' (requests d) \<and>
     students d' = students d \<and> classes d' = classes d"
  by (simp add: updateStatus_def Let_def)

subsection \<open>The membership lists under the store operations\<close>

lemma filter_out_Some:
  "filter_out xs (Some t) = Some (filter (\<lambda>i. i \<noteq> t) xs)"
  by (simp add: filter_out_def)

lemma studentsOf_save_class:
  "studentsOf (save_class cid c d) = (studentsOf d)(cid := studentList c)"
  by (auto simp: studentsOf_def studentList_def fun_eq_iff update_conv')

lemma classesOf_save_student:
  "classesOf (save_student sid s d) = (classesOf d)(sid := classList s)"
  by (auto simp: classesOf_def classList_def fun_eq_iff update_conv')

lemma studentsOf_cong: "classes d' = classes d \<Longrightarrow> studentsOf d' = studentsOf d"
  by (simp add: studentsOf_def studentList_def fun_eq_iff)

lemma classesOf_cong: "students d' = students d \<Longrightarrow> classesOf d' = classesOf d"
  by (simp add: classesOf_def classList_def fun_eq_iff)

lemma adminRemoveStudent_Some:
  assumes "map_of (classes d) (class_id cr) = Some c"
  shows "\<exists>d1. adminRemoveStudent cr (Some s) (Some c) d = Some d1 \<and>
           requests d1 = requests d \<and> students d1 = students d \<and>
           studentsOf d1 =
             (studentsOf d)(class_id cr := filter (\<lambda>i. i \<noteq> student cr) (studentsOf d (class_id cr)))"
proof (cases "enrolledStudents c")
  case None
  then show ?thesis using assms
    by (simp add: adminRemoveStudent_def populated_id_def studentsOf_def studentList_def fun_eq_iff)
next
  case (Some xs)
  then show ?thesis using assms
    by (simp add: adminRemoveStudent_def populated_id_def filter_out_Some studentsOf_save_class)
      (simp add: studentsOf_def studentList_def)
qed

lemma adminRemoveClass_Some:
  assumes "map_of (students d) (student cr) = Some s"
  shows "\<exists>d1. adminRemoveClass cr (Some s0) (Some c) d = Some d1 \<and>
           requests d1 = requests d \<and> classes d1 = classes d \<and>
           classesOf d1 =
             (classesOf d)(student cr := filter (\<lambda>i. i \<noteq> class_id cr) (classesOf d (student cr)))"
proof (cases "enrolledClasses s")
  case None
  then show ?thesis using assms
    by (simp add: adminRemoveClass_def populated_id_def classesOf_def classList_def fun_eq_iff)
next
  case (Some ys)
  then show ?thesis using assms
    by (simp add: adminRemoveClass_def populated_id_def filter_out_Some classesOf_save_student)
      (simp add: classesOf_def classList_def)
qed

lemma adminRemoveMembership_effect:
  assumes "map_of (students d) (student cr) = Some s"
    and "map_of (classes d) (class_id cr) = Some c"
  shows "requests (adminRemoveMembership cr (Some s) (Some c) d) = requests d \<and>
         studentsOf (adminRemoveMembership cr (Some s) (Some c) d) =
           (studentsOf d)(class_id cr := filter (\<lambda>i. i \<noteq> student cr) (studentsOf d (class_id cr))) \<and>
         classesOf (adminRemoveMembership cr (Some s) (Some c) d) =
           (classesOf d)(student cr := filter (\<lambda>i. i \<noteq> class_id cr) (classesOf d (student cr)))"
proof -
  obtain d1 where d1: "adminRemoveStudent cr (Some s) (Some c) d = Some d1"
    "requests d1 = requests d" "students d1 = students d"
    "studentsOf d1 =
       (studentsOf d)(class_id cr := filter (\<lambda>i. i \<noteq> student cr) (studentsOf d (class_id cr)))"
    using adminRemoveStudent_Some [OF assms(2)] by blast
  have s1: "map_of (students d1) (student cr) = Some s" using assms(1) d1(3) by simp
  obtain d2 where d2: "adminRemoveClass cr (Some s) (Some c) d1 = Some d2"
    "requests d2 = requests d1" "classes d2 = classes d1"
    "classesOf d2 =
       (classesOf d1)(student cr := filter (\<lambda>i. i \<noteq> class_id cr) (classesOf d1 (student cr)))"
    using adminRemoveClass_Some [OF s1] by blast
  have "adminRemoveMembership cr (Some s) (Some c) d = d2"
    by (simp add: adminRemoveMembership_def d1(1) d2(1))
  moreover have "studentsOf d2 = studentsOf d1" using d2(3) by (rule studentsOf_cong)
  moreover have "classesOf d1 = classesOf d" using d1(3) by (rule classesOf_cong)
  ultimately show ?thesis using d1 d2 by simp
qed

subsection \<open>changeClassRequestStatus: refusal at full capacity, and the transitions without a membership step\<close>

text \<open>
  C6. A change into Approved of a request that is not Approved, for a student who is not
  in the class's list while the list has reached the capacity, is answered with
  \<open>CapacityExceeded\<close> and leaves the whole store as it was: the request (its status and
  adminResponse), both membership lists, and everything else.
\<close>

theorem changeStatus_capacity_atomic:
  assumes "validationErrors rq = []"
    and "map_of (requests d) (requestId rq) = Some cr"
    and "status cr \<noteq> Approved" and "body_status rq = Approved"
    and "map_of (students d) (student cr) = Some s"
    and "map_of (classes d) (class_id cr) = Some c"
    and "student cr \<notin> set (studentsOf d (class_id cr))"
    and "capacity c \<le> int (length (studentsOf d (class_id cr)))"
  shows "changeClassRequestStatus e rq d = (Inl CapacityExceeded, d)"
  using assms
  by (auto simp: changeClassRequestStatus_def Let_def studentsOf_def studentList_def capacityFull_def
      some_equals_def populated_id_def split: option.splits)

theorem changeStatus_capacity_atomic_witness:
  "validationErrors (admin_req 3 Approved) = [] \<and>
   map_of (requests store_full) (requestId (admin_req 3 Approved)) = Some (request_of 11 20 Pending) \<and>
   status (request_of 11 20 Pending) \<noteq> Approved \<and>
   body_status (admin_req 3 Approved) = Approved \<and>
   map_of (students store_full) 11 = Some (student11 None) \<and>
   map_of (classes store_full) 20 = Some (class20 (Some [10])) \<and>
   11 \<notin> set (studentsOf store_full 20) \<and>
   capacity (class20 (Some [10])) \<le> int (length (studentsOf store_full 20)) \<and>
   changeClassRequestStatus sink_up (admin_req 3 Approved) store_full =
     (Inl CapacityExceeded, store_full)"
  using changeStatus_capacity_atomic [of "admin_req 3 Approved" store_full
      "request_of 11 20 Pending" "student11 None" "class20 (Some [10])" sink_up]
  by (simp add: example_defs studentsOf_def studentList_def)

text \<open>
  C10. \<open>changeClassRequestStatus\<close> never answers \<open>InvalidState\<close>, whatever the current
  and the new status are. When the old and the new status are both Approved or both not
  Approved, it succeeds, the students and classes collections (hence both membership lists)
  are unchanged, and the request is saved with the new status and a new adminResponse and
  is otherwise as before.
\<close>

theorem changeStatus_never_InvalidState:
  "fst (changeClassRequestStatus e rq d) \<noteq> Inl (InvalidState m) \<and>
   (validationErrors rq = [] \<longrightarrow> map_of (requests d) (requestId rq) = Some cr \<longrightarrow>
    (status cr = Approved \<longleftrightarrow> body_status rq = Approved) \<longrightarrow>
    (\<exists>cr' d'. changeClassRequestStatus e rq d = (Inr cr', d') \<and>
       cr' = cr\<lparr>status := body_status rq,
              adminResponse := Some \<lparr>actionBy = user_id rq, actionDate = now e,
                actionNote = noteOr (adminNote rq)
                  (''Status changed from '' @ statusName (status cr) @ '' to '' @
                   statusName (body_status rq))\<rparr>\<rparr> \<and>
       requests d' = AList.update (requestId rq) cr' (requests d) \<and>
       students d' = students d \<and> classes d' = classes d))"
proof -
  have u: "fst (updateStatus e rq cr0 s_opt c_opt d1) \<noteq> Inl (InvalidState m)"
    for cr0 s_opt c_opt d1
    by (simp add: updateStatus_def Let_def)
  have a: "fst (changeClassRequestStatus e rq d) \<noteq> Inl (InvalidState m)"
    by (auto simp: changeClassRequestStatus_def Let_def u split: option.splits)
  have b: "\<exists>cr' d'. changeClassRequestStatus e rq d = (Inr cr', d') \<and>
       cr' = cr\<lparr>status := body_status rq,
              adminResponse := Some \<lparr>actionBy = user_id rq, actionDate = now e,
                actionNote = noteOr (adminNote rq)
                  (''Status changed from '' @ statusName (status cr) @ '' to '' @
                   statusName (body_status rq))\<rparr>\<rparr> \<and>
       requests d' = AList.update (requestId rq) cr' (requests d) \<and>
       students d' = students d \<and> classes d' = classes d"
    if "validationErrors rq = []" "map_of (requests d) (requestId rq) = Some cr"
       "status cr = Approved \<longleftrightarrow> body_status rq = Approved"
    using that updateStatus_result [of e rq cr "map_of (students d) (student cr)"
        "map_of (classes d) (class_id cr)" d]
    by (auto simp: changeClassRequestStatus_def Let_def)
  show ?thesis using a b by blast
qed

theorem changeStatus_never_InvalidState_witness:
  "validationErrors (admin_req 1 Pending) = [] \<and>
   map_of (requests store_full) (requestId (admin_req 1 Pending)) = Some (request_of 10 20 Rejected) \<and>
   (status (request_of 10 20 Rejected) = Approved \<longleftrightarrow> body_status (admin_req 1 Pending) = Approved) \<and>
   (\<exists>cr' d'. changeClassRequestStatus sink_down (admin_req 1 Pending) store_full = (Inr cr', d') \<and>
      status cr' = Pending \<and> students d' = students store_full \<and>
      classes d' = classes store_full)"
  using changeStatus_never_InvalidState [of sink_down "admin_req 1 Pending" store_full
      "[]" "request_of 10 20 Rejected"]
  by (auto simp: example_defs)

subsection \<open>approveAllPendingRequests on an empty pending set\<close>

text \<open>
  C9. For a request that passed validation, \<open>approveAllPendingRequests\<close> answers
  \<open>InvalidState\<close> exactly when no request of the store is Pending; in that case the answer
  is never a success and the store is unchanged.
\<close>

theorem approveAll_InvalidState_iff_empty:
  assumes "validationErrors rq = []"
  shows "((\<exists>m. fst (approveAllPendingRequests e rq d) = Inl (InvalidState m)) \<longleftrightarrow>
          (\<forall>(rid, cr) \<in> set (requests d). status cr \<noteq> Pending)) \<and>
         ((\<forall>(rid, cr) \<in> set (requests d). status cr \<noteq> Pending) \<longrightarrow>
          (\<forall>r. fst (approveAllPendingRequests e rq d) \<noteq> Inr r) \<and>
          snd (approveAllPendingRequests e rq d) = d)"
proof -
  have p: "(pendingRequests d = []) = (\<forall>(rid, cr) \<in> set (requests d). status cr \<noteq> Pending)"
    by (auto simp: pendingRequests_def filter_empty_conv)
  show ?thesis
    using assms p
    by (auto simp: approveAllPendingRequests_def split: option.splits prod.splits)
qed

theorem approveAll_InvalidState_iff_empty_witness:
  "validationErrors (admin_req 0 Approved) = [] \<and>
   filter (\<lambda>(rid, cr). status cr = Pending)
     (requests (store0\<lparr>requests := [(1, request_of 10 20 Rejected)]\<rparr>)) = [] \<and>
   (\<exists>m. fst (approveAllPendingRequests sink_up (admin_req 0 Approved)
              (store0\<lparr>requests := [(1, request_of 10 20 Rejected)]\<rparr>)) = Inl (InvalidState m))"
  using approveAll_InvalidState_iff_empty [of "admin_req 0 Approved" sink_up
      "store0\<lparr>requests := [(1, request_of 10 20 Rejected)]\<rparr>"]
  by (simp add: example_defs)

subsection \<open>Deleting a request\<close>

text \<open>
  C8. \<open>deleteClassRequest\<close>, for a requester whose student profile is found and a request
  that exists: a request of another student is answered \<open>Forbidden\<close>; an own request that
  is not Pending is answered \<open>InvalidState\<close>; an own Pending request is removed from the
  requests, and the students and classes collections (both membership lists) are unchanged.
  In the two failing cases the store is unchanged.
  \<open>adminDeleteClassRequest\<close> of an Approved request whose student and class exist
  succeeds, removes the request, removes the student from the class's enrolledStudents and
  the class from the student's enrolledClasses, and leaves every other list as it was.
\<close>

theorem deletion_semantics:
  "(find (\<lambda>(sid, s). userId s = user_id rq) (students d) = Some (sid, s) \<longrightarrow>
    map_of (requests d) (requestId rq) = Some cr \<longrightarrow>
      (student cr \<noteq> sid \<longrightarrow> deleteClassRequest rq d = (Inl Forbidden, d)) \<and>
      (student cr = sid \<longrightarrow> status cr \<noteq> Pending \<longrightarrow>
         deleteClassRequest rq d =
           (Inl (InvalidState ''You can only delete pending class requests''), d)) \<and>
      (student cr = sid \<longrightarrow> status cr = Pending \<longrightarrow>
         (\<exists>d'. deleteClassRequest rq d = (Inr (), d') \<and>
            map_of (requests d') = (map_of (requests d))(requestId rq := None) \<and>
            students d' = students d \<and> classes d' = classes d))) \<and>
   (map_of (requests d) (requestId rq) = Some cr \<longrightarrow> status cr = Approved \<longrightarrow>
    map_of (students d) (student cr) = Some s' \<longrightarrow>
    map_of (classes d) (class_id cr) = Some c \<longrightarrow>
      (\<exists>r d'. adminDeleteClassRequest e rq d = (Inr r, d') \<and>
         map_of (requests d') = (map_of (requests d))(requestId rq := None) \<and>
         studentsOf d' =
           (studentsOf d)(class_id cr := filter (\<lambda>i. i \<noteq> student cr) (studentsOf d (class_id cr))) \<and>
         classesOf d' =
           (classesOf d)(student cr := filter (\<lambda>i. i \<noteq> class_id cr) (classesOf d (student cr))) \<and>
         student cr \<notin> set (studentsOf d' (class_id cr)) \<and>
         class_id cr \<notin> set (classesOf d' (student cr))))"
proof -
  have del: "(student cr \<noteq> sid \<longrightarrow> deleteClassRequest rq d = (Inl Forbidden, d)) \<and>
      (student cr = sid \<longrightarrow> status cr \<noteq> Pending \<longrightarrow>
         deleteClassRequest rq d =
           (Inl (InvalidState ''You can only delete pending class requests''), d)) \<and>
      (student cr = sid \<longrightarrow> status cr = Pending \<longrightarrow>
         (\<exists>d'. deleteClassRequest rq d = (Inr (), d') \<and>
            map_of (requests d') = (map_of (requests d))(requestId rq := None) \<and>
            students d' = students d \<and> classes d' = classes d))"
    if "find (\<lambda>(sid, s). userId s = user_id rq) (students d) = Some (sid, s)"
       "map_of (requests d) (requestId rq) = Some cr"
    using that by (simp add: deleteClassRequest_def delete_conv')
  have adm: "\<exists>r d'. adminDeleteClassRequest e rq d = (Inr r, d') \<and>
         map_of (requests d') = (map_of (requests d))(requestId rq := None) \<and>
         studentsOf d' =
           (studentsOf d)(class_id cr := filter (\<lambda>i. i \<noteq> student cr) (studentsOf d (class_id cr))) \<and>
         classesOf d' =
           (classesOf d)(student cr := filter (\<lambda>i. i \<noteq> class_id cr) (classesOf d (student cr))) \<and>
         student cr \<notin> set (studentsOf d' (class_id cr)) \<and>
         class_id cr \<notin> set (classesOf d' (student cr))"
    if h: "map_of (requests d) (requestId rq) = Some cr" "status cr = Approved"
       "map_of (students d) (student cr) = Some s'" "map_of (classes d) (class_id cr) = Some c"
  proof -
    let ?d1 = "adminRemoveMembership cr (Some s') (Some c) d"
    note eff = adminRemoveMembership_effect [OF h(3) h(4)]
    let ?d2 = "tryDispatch e ''Error creating notification for deleted class request:''
                     (mkNotification ''general'' (\<lambda>s. student cr)
                        (\<lambda>c. ''Your class enrollment request for '' @ grade c @ '' - '' @
                              category c @ '' has been deleted by an administrator.'')
                        (requestId rq) cr (Some s') (Some c)) ?d1"
    let ?d3 = "?d2\<lparr>requests := AList.delete (requestId rq) (requests ?d2)\<rparr>"
    have r: "adminDeleteClassRequest e rq d =
       (Inr \<lparr>deleted_studentName = firstName s' @ '' '' @ lastName s',
              deleted_className = grade c @ '' - '' @ category c,
              deleted_status = status cr\<rparr>, ?d3)"
      using h by (simp add: adminDeleteClassRequest_def Let_def)
    have s3: "studentsOf ?d3 = studentsOf ?d1" by (rule studentsOf_cong) simp
    have c3: "classesOf ?d3 = classesOf ?d1" by (rule classesOf_cong) simp
    have q3: "map_of (requests ?d3) = (map_of (requests d))(requestId rq := None)"
      using eff by (simp add: delete_conv')
    show ?thesis
      unfolding r using s3 c3 q3 eff by simp
  qed
  show ?thesis using del adm by blast
qed


theorem deletion_semantics_witness:
  "deleteClassRequest (student_req 101 2) store0 = (Inl Forbidden, store0) \<and>
   deleteClassRequest (student_req 100 1) store0 =
     (Inl (InvalidState ''You can only delete pending class requests''), store0) \<and>
   (\<exists>d'. deleteClassRequest (student_req 100 2) store0 = (Inr (), d') \<and>
      map_of (requests d') 2 = None \<and> map_of (requests d') 3 = Some (request_of 11 20 Pending) \<and>
      students d' = students store0 \<and> classes d' = classes store0) \<and>
   (\<exists>r d'. adminDeleteClassRequest sink_down (admin_req 2 Approved) store_full = (Inr r, d') \<and>
      map_of (requests d') 2 = None \<and> studentsOf d' 20 = [] \<and> classesOf d' 10 = [])"
proof -
  have f11: "find (\<lambda>(sid, s). userId s = user_id (student_req 101 2)) (students store0) =
      Some (11, student11 None)"
    by (simp add: example_defs student_req_def)
  have f10: "find (\<lambda>(sid, s). userId s = user_id (student_req 100 rid)) (students store0) =
      Some (10, student10 (Some []))" for rid
    by (simp add: example_defs student_req_def)
  have r1: "map_of (requests store0) (requestId (student_req u 1)) = Some (request_of 10 20 Rejected)"
    and r2: "map_of (requests store0) (requestId (student_req u 2)) = Some (request_of 10 20 Pending)"
    for u
    by (simp_all add: example_defs student_req_def)
  have a: "deleteClassRequest (student_req 101 2) store0 = (Inl Forbidden, store0)"
    using deletion_semantics [where rq = "student_req 101 2" and d = store0 and sid = 11
        and s = "student11 None" and cr = "request_of 10 20 Pending"] f11 r2 [of 101]
    by (simp add: request_of_def)
  have b: "deleteClassRequest (student_req 100 1) store0 =
      (Inl (InvalidState ''You can only delete pending class requests''), store0)"
    using deletion_semantics [where rq = "student_req 100 1" and d = store0 and sid = 10
        and s = "student10 (Some [])" and cr = "request_of 10 20 Rejected"] f10 [of 1] r1 [of 100]
    by (simp add: request_of_def)
  have c: "\<exists>d'. deleteClassRequest (student_req 100 2) store0 = (Inr (), d') \<and>
      map_of (requests d') 2 = None \<and> map_of (requests d') 3 = Some (request_of 11 20 Pending) \<and>
      students d' = students store0 \<and> classes d' = classes store0"
  proof -
    obtain d' where d': "deleteClassRequest (student_req 100 2) store0 = (Inr (), d')"
      "map_of (requests d') = (map_of (requests store0))(requestId (student_req 100 2) := None)"
      "students d' = students store0" "classes d' = classes store0"
      using deletion_semantics [where rq = "student_req 100 2" and d = store0 and sid = 10
          and s = "student10 (Some [])" and cr = "request_of 10 20 Pending"] f10 [of 2] r2 [of 100]
      by (auto simp: request_of_def)
    have "map_of (requests d') 2 = None" "map_of (requests d') 3 = Some (request_of 11 20 Pending)"
      unfolding d'(2) by (simp_all add: student_req_def store0_def)
    then show ?thesis using d' by blast
  qed
  have d: "\<exists>r d'. adminDeleteClassRequest sink_down (admin_req 2 Approved) store_full = (Inr r, d') \<and>
      map_of (requests d') 2 = None \<and> studentsOf d' 20 = [] \<and> classesOf d' 10 = []"
  proof -
    have q: "map_of (requests store_full) (requestId (admin_req 2 Approved)) =
        Some (request_of 10 20 Approved)"
      "status (request_of 10 20 Approved) = Approved"
      "map_of (students store_full) (student (request_of 10 20 Approved)) = Some (student10 (Some [20]))"
      "map_of (classes store_full) (class_id (request_of 10 20 Approved)) = Some (class20 (Some [10]))"
      by (simp_all add: example_defs)
    obtain r d' where d':
      "adminDeleteClassRequest sink_down (admin_req 2 Approved) store_full = (Inr r, d')"
      "map_of (requests d') = (map_of (requests store_full))(requestId (admin_req 2 Approved) := None)"
      "studentsOf d' = (studentsOf store_full)(class_id (request_of 10 20 Approved) :=
         filter (\<lambda>i. i \<noteq> student (request_of 10 20 Approved))
           (studentsOf store_full (class_id (request_of 10 20 Approved))))"
      "classesOf d' = (classesOf store_full)(student (request_of 10 20 Approved) :=
         filter (\<lambda>i. i \<noteq> class_id (request_of 10 20 Approved))
           (classesOf store_full (student (request_of 10 20 Approved))))"
      using deletion_semantics [where rq = "admin_req 2 Approved" and d = store_full
          and cr = "request_of 10 20 Approved" and s' = "student10 (Some [20])"
          and c = "class20 (Some [10])" and e = sink_down] q
      by blast
    have "map_of (requests d') 2 = None" "studentsOf d' 20 = []" "classesOf d' 10 = []"
      unfolding d'(2,3,4) by (simp_all add: example_defs studentsOf_def studentList_def classesOf_def classList_def)
    then show ?thesis using d'(1) by blast
  qed
  show ?thesis using a b c d by blast
qed

subsection \<open>The handlers as sequences of list writes\<close>

lemma writes_refl [simp]: "writes d d"
  by (rule writes.frame) simp_all

lemma list_all_update:
  "list_all P al \<Longrightarrow> P (k, v) \<Longrightarrow> list_all P (AList.update k v al)"
  by (induction al) auto

lemma capacity_ok_entry:
  "capacity_ok d \<Longrightarrow> map_of (classes d) cid = Some c \<Longrightarrow> int (length (studentList c)) \<le> capacity c"
  by (auto simp: capacity_ok_def list_all_iff dest!: map_of_SomeD)

lemma length_filter_le_int: "int (length (filter P xs)) \<le> int (length xs)"
  by simp

lemma writes_capacity_ok: "writes d d' \<Longrightarrow> capacity_ok d \<Longrightarrow> capacity_ok d'"
proof (induction rule: writes.induct)
  case (frame d' d)
  then show ?case by (simp add: capacity_ok_def)
next
  case (push_student d cid c s d')
  then show ?case
    by (simp add: capacity_ok_def list_all_update studentList_def)
next
  case (push_class d sid sd c d')
  then show ?case by (simp add: capacity_ok_def)
next
  case (filter_students d cid c d' t)
  have "int (length (filter (\<lambda>i. i \<noteq> t) (studentList c))) \<le> capacity c"
    using capacity_ok_entry [OF filter_students(4) filter_students(1)]
      length_filter_le [of "\<lambda>i. i \<noteq> t" "studentList c"] by linarith
  then show ?case using filter_students
    by (simp add: capacity_ok_def list_all_update studentList_def)
next
  case (filter_classes d sid sd d' t)
  then show ?case by (simp add: capacity_ok_def)
next
  case (seq d d1 d2)
  then show ?case by simp
qed

lemma count_list_append1: "count_list (xs @ [s]) x = count_list xs x + (if x = s then 1 else 0)"
  by (induction xs) auto

lemma count_list_filter_le: "count_list (filter P xs) x \<le> count_list xs x"
  by (induction xs) auto

lemma count_list_0: "s \<notin> set xs \<Longrightarrow> count_list xs s = 0"
  by (induction xs) auto

lemma writes_no_duplicate:
  "writes d d' \<Longrightarrow>
   count_list (studentsOf d' c) x \<le> max 1 (count_list (studentsOf d c) x) \<and>
   count_list (classesOf d' s) y \<le> max 1 (count_list (classesOf d s) y)"
proof (induction arbitrary: rule: writes.induct)
  case (frame d' d)
  then show ?case by (simp add: studentsOf_def classesOf_def)
next
  case (push_student d cid c0 s0 d')
  then show ?case
    by (auto simp: studentsOf_def classesOf_def update_conv' studentList_def
        count_list_append1 count_list_0)
next
  case (push_class d sid sd c0 d')
  then show ?case
    by (auto simp: classesOf_def studentsOf_def update_conv' classList_def
        count_list_append1 count_list_0)
next
  case (filter_students d cid c0 d' t)
  have "count_list (filter (\<lambda>i. i \<noteq> t) (studentList c0)) x \<le> max 1 (count_list (studentList c0) x)"
    using count_list_filter_le [of "\<lambda>i. i \<noteq> t" "studentList c0" x] by linarith
  with filter_students show ?case
    by (auto simp: studentsOf_def classesOf_def update_conv' studentList_def)
next
  case (filter_classes d sid sd d' t)
  have "count_list (filter (\<lambda>i. i \<noteq> t) (classList sd)) y \<le> max 1 (count_list (classList sd) y)"
    using count_list_filter_le [of "\<lambda>i. i \<noteq> t" "classList sd" y] by linarith
  with filter_classes show ?case
    by (auto simp: classesOf_def studentsOf_def update_conv' classList_def)
next
  case (seq d d1 d2)
  then show ?case by linarith
qed


lemma some_equals_Some [simp]: "some_equals xs (Some t) = Some (t \<in> set xs)"
  by (simp add: some_equals_def)

lemma capacityFull_Some:
  "capacityFull c (Some s) =
     Some (s \<notin> set (studentList c) \<and> capacity c \<le> int (length (studentList c)))"
  by (cases "enrolledStudents c") (simp_all add: capacityFull_def studentList_def)

lemma capacityFull_None:
  "capacityFull c None = (if studentList c = [] then Some (capacity c \<le> 0) else None)"
  by (cases "enrolledStudents c") (simp_all add: capacityFull_def studentList_def some_equals_def)

lemma addStudentToClass_Some:
  "addStudentToClass cid c (Some s) d =
     Some (if s \<in> set (studentList c) then d
           else save_class cid (c\<lparr>enrolledStudents := Some (studentList c @ [s])\<rparr>) d)"
  by (cases "enrolledStudents c") (simp_all add: addStudentToClass_def studentList_def)

lemma addStudentToClass_None: "addStudentToClass cid c None d = None"
  by (simp add: addStudentToClass_def some_equals_def Let_def)

lemma addClassToStudent_alt:
  "addClassToStudent sid s cid d =
     (if cid \<in> set (classList s) then d
      else save_student sid (s\<lparr>enrolledClasses := Some (classList s @ [cid])\<rparr>) d)"
  by (cases "enrolledClasses s") (simp_all add: addClassToStudent_def classList_def)

lemma enroll_None [simp]: "enroll cr None c d = None"
  by (simp add: enroll_def populated_id_def addStudentToClass_None)

lemma enroll_Some:
  "enroll cr (Some s) c d =
     Some (addClassToStudent (student cr) s (class_id cr)
            (if student cr \<in> set (studentList c) then d
             else save_class (class_id cr)
                    (c\<lparr>enrolledStudents := Some (studentList c @ [student cr])\<rparr>) d))"
  by (simp add: enroll_def populated_id_def addStudentToClass_Some)

lemma enroll_writes:
  assumes "map_of (classes d) (class_id cr) = Some c"
    and "map_of (students d) (student cr) = s_opt"
    and "capacityFull c (populated_id (student cr) s_opt) = Some False"
    and "enroll cr s_opt c d = Some d'"
  shows "writes d d' \<and> requests d' = requests d"
proof -
  obtain s where s: "s_opt = Some s"
    using assms(4) by (cases s_opt) auto
  define d1 where "d1 = (if student cr \<in> set (studentList c) then d
             else save_class (class_id cr)
                    (c\<lparr>enrolledStudents := Some (studentList c @ [student cr])\<rparr>) d)"
  have d': "d' = addClassToStudent (student cr) s (class_id cr) d1"
    using assms(4) s by (simp add: enroll_Some d1_def)
  have w1: "writes d d1 \<and> requests d1 = requests d \<and> students d1 = students d"
  proof (cases "student cr \<in> set (studentList c)")
    case True
    then show ?thesis by (simp add: d1_def)
  next
    case False
    then have e: "d1 = save_class (class_id cr) (c\<lparr>enrolledStudents := Some (studentList c @ [student cr])\<rparr>) d"
      by (simp add: d1_def)
    have "int (length (studentList c)) < capacity c"
      using assms(3) s False by (simp add: capacityFull_Some populated_id_def)
    then have "writes d d1"
      using assms(1) False e
      by (intro writes.push_student [where cid = "class_id cr" and c = c and s = "student cr"])
        simp_all
    then show ?thesis using e by simp
  qed
  have sd1: "map_of (students d1) (student cr) = Some s" using w1 assms(2) s by simp
  have w2: "writes d1 d' \<and> requests d' = requests d1"
  proof (cases "class_id cr \<in> set (classList s)")
    case True
    then show ?thesis using d' by (simp add: addClassToStudent_alt)
  next
    case False
    then have e: "d' = save_student (student cr) (s\<lparr>enrolledClasses := Some (classList s @ [class_id cr])\<rparr>) d1"
      using d' by (simp add: addClassToStudent_alt)
    have "writes d1 d'"
      using sd1 False e
      by (intro writes.push_class [where sid = "student cr" and sd = s and c = "class_id cr"])
        simp_all
    then show ?thesis using e by simp
  qed
  show ?thesis using w1 w2 writes.seq by auto
qed

lemma removeStudentFromClass_writes:
  assumes "map_of (classes d) (class_id cr) = c_opt"
    and "removeStudentFromClass cr s_opt c_opt d = Some d1"
  shows "writes d d1 \<and> requests d1 = requests d \<and> students d1 = students d"
proof (cases "d1 = d")
  case True
  then show ?thesis by simp
next
  case False
  then obtain c xs t where c: "c_opt = Some c" "enrolledStudents c = Some xs"
    "d1 = save_class (class_id cr) (c\<lparr>enrolledStudents := Some (filter (\<lambda>i. i \<noteq> t) xs)\<rparr>) d"
    using assms(2)
    by (auto simp: removeStudentFromClass_def filter_out_def split: option.splits if_splits)
  then have "writes d d1"
    using assms(1)
    by (intro writes.filter_students [where cid = "class_id cr" and c = c and t = t])
      (simp_all add: studentList_def)
  then show ?thesis using c by simp
qed

lemma removeClassFromStudent_writes:
  assumes "map_of (students d) (student cr) = s_opt"
    and "removeClassFromStudent cr s_opt c_opt d = Some d1"
  shows "writes d d1 \<and> requests d1 = requests d \<and> classes d1 = classes d"
proof (cases "d1 = d")
  case True
  then show ?thesis by simp
next
  case False
  then obtain s ys t where c: "s_opt = Some s" "enrolledClasses s = Some ys"
    "d1 = save_student (student cr) (s\<lparr>enrolledClasses := Some (filter (\<lambda>i. i \<noteq> t) ys)\<rparr>) d"
    using assms(2)
    by (auto simp: removeClassFromStudent_def filter_out_def split: option.splits if_splits)
  then have "writes d d1"
    using assms(1)
    by (intro writes.filter_classes [where sid = "student cr" and sd = s and t = t])
      (simp_all add: classList_def)
  then show ?thesis using c by simp
qed

lemma removeMembership_writes:
  assumes "map_of (classes d) (class_id cr) = c_opt"
    and "map_of (students d) (student cr) = s_opt"
  shows "writes d (removeMembership cr s_opt c_opt d) \<and>
         requests (removeMembership cr s_opt c_opt d) = requests d"
proof (cases "removeStudentFromClass cr s_opt c_opt d")
  case None
  then show ?thesis by (simp add: removeMembership_def writes.frame)
next
  case (Some d1)
  note w1 = removeStudentFromClass_writes [OF assms(1) Some]
  have s1: "map_of (students d1) (student cr) = s_opt" using w1 assms(2) by simp
  show ?thesis
  proof (cases "removeClassFromStudent cr s_opt c_opt d1")
    case None
    have "writes d1 (console_error ''Error removing student from class:'' d1)"
      by (simp add: writes.frame)
    then show ?thesis using Some None w1 writes.seq by (auto simp: removeMembership_def)
  next
    case (Some d2)
    note w2 = removeClassFromStudent_writes [OF s1 Some]
    show ?thesis using \<open>removeStudentFromClass cr s_opt c_opt d = Some d1\<close> Some w1 w2 writes.seq
      by (auto simp: removeMembership_def)
  qed
qed


lemma adminRemoveStudent_writes:
  assumes "map_of (classes d) (class_id cr) = c_opt"
    and "adminRemoveStudent cr s_opt c_opt d = Some d1"
  shows "writes d d1 \<and> requests d1 = requests d \<and> students d1 = students d"
proof (cases "d1 = d")
  case True
  then show ?thesis by simp
next
  case False
  then obtain c xs t where c: "map_of (classes d) (class_id cr) = Some c"
    "enrolledStudents c = Some xs"
    "d1 = save_class (class_id cr) (c\<lparr>enrolledStudents := Some (filter (\<lambda>i. i \<noteq> t) xs)\<rparr>) d"
    using assms
    by (auto simp: adminRemoveStudent_def filter_out_def populated_id_def
        split: option.splits if_splits)
  then have "writes d d1"
    by (intro writes.filter_students [where cid = "class_id cr" and c = c and t = t])
      (simp_all add: studentList_def)
  then show ?thesis using c by simp
qed

lemma adminRemoveClass_writes:
  assumes "map_of (students d) (student cr) = s_opt"
    and "adminRemoveClass cr s_opt c_opt d = Some d1"
  shows "writes d d1 \<and> requests d1 = requests d \<and> classes d1 = classes d"
proof (cases "d1 = d")
  case True
  then show ?thesis by simp
next
  case False
  then obtain s ys t where c: "map_of (students d) (student cr) = Some s"
    "enrolledClasses s = Some ys"
    "d1 = save_student (student cr) (s\<lparr>enrolledClasses := Some (filter (\<lambda>i. i \<noteq> t) ys)\<rparr>) d"
    using assms
    by (auto simp: adminRemoveClass_def filter_out_def populated_id_def
        split: option.splits if_splits)
  then have "writes d d1"
    by (intro writes.filter_classes [where sid = "student cr" and sd = s and t = t])
      (simp_all add: classList_def)
  then show ?thesis using c by simp
qed

lemma adminRemoveMembership_writes:
  assumes "map_of (classes d) (class_id cr) = c_opt"
    and "map_of (students d) (student cr) = s_opt"
  shows "writes d (adminRemoveMembership cr s_opt c_opt d) \<and>
         requests (adminRemoveMembership cr s_opt c_opt d) = requests d"
proof (cases "adminRemoveStudent cr s_opt c_opt d")
  case None
  then show ?thesis by (simp add: adminRemoveMembership_def writes.frame)
next
  case (Some d1)
  note w1 = adminRemoveStudent_writes [OF assms(1) Some]
  have s1: "map_of (students d1) (student cr) = s_opt" using w1 assms(2) by simp
  show ?thesis
  proof (cases "adminRemoveClass cr s_opt c_opt d1")
    case None
    have "writes d1 (console_error ''Error removing student from class during deletion:'' d1)"
      by (simp add: writes.frame)
    then show ?thesis using Some None w1 writes.seq by (auto simp: adminRemoveMembership_def)
  next
    case (Some d2)
    note w2 = adminRemoveClass_writes [OF s1 Some]
    show ?thesis using \<open>adminRemoveStudent cr s_opt c_opt d = Some d1\<close> Some w1 w2 writes.seq
      by (auto simp: adminRemoveMembership_def)
  qed
qed

lemma writes_then_frame:
  "writes d d1 \<Longrightarrow> classes d2 = classes d1 \<Longrightarrow> students d2 = students d1 \<Longrightarrow> writes d d2"
  by (erule writes.seq) (rule writes.frame)

lemma frame_then_writes:
  "classes d1 = classes d \<Longrightarrow> students d1 = students d \<Longrightarrow> writes d1 d2 \<Longrightarrow> writes d d2"
  by (rule writes.seq [OF writes.frame])

lemma updateStatus_writes:
  "writes d0 d \<Longrightarrow> writes d0 (snd (updateStatus e rq cr s_opt c_opt d))"
  by (erule writes_then_frame) (simp_all add: updateStatus_def Let_def)

lemma approve_writes: "writes d (snd (approveClassRequest e rq d))"
proof (cases "validationErrors rq = [] \<and> (\<exists>cr. map_of (requests d) (requestId rq) = Some cr \<and>
    status cr = Pending)")
  case False
  then show ?thesis
    by (auto simp: approveClassRequest_def writes.frame split: option.splits)
next
  case True
  then obtain cr where cr: "validationErrors rq = []"
    "map_of (requests d) (requestId rq) = Some cr" "status cr = Pending"
    by blast
  let ?s = "map_of (students d) (student cr)" and ?c = "map_of (classes d) (class_id cr)"
  define cr' where "cr' = cr\<lparr>status := Approved,
      adminResponse := Some \<lparr>actionBy = user_id rq, actionDate = now e,
        actionNote = noteOr (adminNote rq) ''Request approved''\<rparr>\<rparr>"
  let ?d1 = "save_request (requestId rq) cr' d"
  show ?thesis
  proof (cases "\<exists>c d2. ?c = Some c \<and> capacityFull c (populated_id (student cr) ?s) = Some False \<and>
      enroll cr' ?s c ?d1 = Some d2")
    case True
    then obtain c d2 where h: "?c = Some c"
      "capacityFull c (populated_id (student cr) ?s) = Some False"
      "enroll cr' ?s c ?d1 = Some d2"
      by blast
    have w: "writes ?d1 d2"
      using enroll_writes [of ?d1 cr' c ?s d2] h by (simp add: cr'_def)
    have "writes d d2" by (rule frame_then_writes [OF _ _ w]) simp_all
    then show ?thesis using cr h
      by (auto simp: approveClassRequest_def Let_def cr'_def elim!: writes_then_frame)
  next
    case False
    then show ?thesis using cr
      by (auto simp: approveClassRequest_def Let_def cr'_def writes.frame split: option.splits)
  qed
qed

lemma reject_writes: "writes d (snd (rejectClassRequest e rq d))"
  by (rule writes.frame)
    (auto simp: rejectClassRequest_def Let_def dispatch_def split: option.splits)

lemma changeStatus_writes: "writes d (snd (changeClassRequestStatus e rq d))"
proof (cases "validationErrors rq \<noteq> [] \<or> map_of (requests d) (requestId rq) = None")
  case True
  then show ?thesis
    by (auto simp: changeClassRequestStatus_def writes.frame)
next
  case False
  then obtain cr where cr: "validationErrors rq = []" "map_of (requests d) (requestId rq) = Some cr"
    by auto
  let ?s = "map_of (students d) (student cr)" and ?c = "map_of (classes d) (class_id cr)"
  consider (away) "status cr = Approved" "body_status rq \<noteq> Approved"
    | (into) "status cr \<noteq> Approved" "body_status rq = Approved"
    | (same) "(status cr = Approved) = (body_status rq = Approved)"
    by blast
  then show ?thesis
  proof cases
    case away
    have "writes d (removeMembership cr ?s ?c d)"
      using removeMembership_writes [of d cr ?c ?s] by simp
    then show ?thesis using cr away
      by (simp add: changeClassRequestStatus_def Let_def updateStatus_writes)
  next
    case into
    show ?thesis
    proof (cases "\<exists>c d1. ?c = Some c \<and> capacityFull c (populated_id (student cr) ?s) = Some False \<and>
        enroll cr ?s c d = Some d1")
      case True
      then obtain c d1 where h: "?c = Some c"
        "capacityFull c (populated_id (student cr) ?s) = Some False" "enroll cr ?s c d = Some d1"
        by blast
      have "writes d d1" using enroll_writes [of d cr c ?s d1] h by simp
      then show ?thesis using cr into h
        by (simp add: changeClassRequestStatus_def Let_def updateStatus_writes)
    next
      case False
      then show ?thesis using cr into
        by (auto simp: changeClassRequestStatus_def Let_def writes.frame split: option.splits)
    qed
  next
    case same
    then show ?thesis using cr
      by (auto simp: changeClassRequestStatus_def Let_def updateStatus_writes)
  qed
qed

lemma approveOne_writes: "writes d (snd (approveOne e rq rid cr d))"
proof (cases "\<exists>c d1. map_of (classes d) (class_id cr) = Some c \<and>
    capacityFull c (populated_id (student cr) (map_of (students d) (student cr))) = Some False \<and>
    enroll cr (map_of (students d) (student cr)) c d = Some d1")
  case True
  then obtain c d1 where h: "map_of (classes d) (class_id cr) = Some c"
    "capacityFull c (populated_id (student cr) (map_of (students d) (student cr))) = Some False"
    "enroll cr (map_of (students d) (student cr)) c d = Some d1"
    by blast
  have "writes d d1" using enroll_writes [of d cr c _ d1] h by simp
  then show ?thesis using h
    by (auto simp: approveOne_def Let_def elim!: writes_then_frame)
next
  case False
  then show ?thesis
    by (auto simp: approveOne_def Let_def itemThrew_def writes.frame split: option.splits)
qed

lemma approveLoop_writes: "writes d (snd (approveLoop e rq ps a f fs d))"
proof (induction ps arbitrary: a f fs d)
  case Nil
  then show ?case by simp
next
  case (Cons p ps)
  obtain rid cr where p: "p = (rid, cr)" by (cases p)
  obtain r d1 where one: "approveOne e rq rid cr d = (r, d1)" by (cases "approveOne e rq rid cr d")
  have w: "writes d d1" using approveOne_writes [of d e rq rid cr] one by simp
  have "writes d (snd (approveLoop e rq ps a' f' fs' d1))" for a' f' fs'
    using w Cons.IH [of d1 a' f' fs'] by (rule writes.seq)
  then show ?case
    using w one p by (cases r) simp_all
qed

lemma approveAll_writes: "writes d (snd (approveAllPendingRequests e rq d))"
proof -
  have "writes d (snd (approveLoop e rq (pendingRequests d) 0 0 [] d))"
    by (rule approveLoop_writes)
  then show ?thesis
    by (auto simp: approveAllPendingRequests_def writes.frame split: prod.splits option.splits
        elim!: writes_then_frame)
qed

lemma delete_writes: "writes d (snd (deleteClassRequest rq d))"
  by (rule writes.frame) (auto simp: deleteClassRequest_def split: option.splits prod.splits)

lemma adminDelete_writes: "writes d (snd (adminDeleteClassRequest e rq d))"
proof (cases "map_of (requests d) (requestId rq)")
  case None
  then show ?thesis by (simp add: adminDeleteClassRequest_def)
next
  case (Some cr)
  let ?s = "map_of (students d) (student cr)" and ?c = "map_of (classes d) (class_id cr)"
  have w: "writes d (if status cr = Approved then adminRemoveMembership cr ?s ?c d else d)"
    using adminRemoveMembership_writes [of d cr ?c ?s] by simp
  show ?thesis using Some
    by (auto simp: adminDeleteClassRequest_def Let_def split: option.splits
        intro!: writes_then_frame [OF w])
qed

lemma create_writes: "writes d (snd (createClassRequest rq d))"
  by (rule writes.frame)
    (auto simp: createClassRequest_def split: option.splits prod.splits)

lemma step_writes: "writes d (step op d)"
  by (cases op)
    (simp_all add: create_writes approve_writes reject_writes changeStatus_writes approveAll_writes
      delete_writes adminDelete_writes)

lemma run_writes: "writes d (run ops d)"
  unfolding run_def
proof (induction ops arbitrary: d)
  case Nil
  then show ?case by simp
next
  case (Cons op ops)
  have "writes d (fold step ops (step op d))"
    using step_writes [of d op] Cons.IH [of "step op d"] by (rule writes.seq)
  then show ?case by simp
qed

lemma studentsOf_memberD:
  "x \<in> set (studentsOf d c) \<Longrightarrow> \<exists>cd. map_of (classes d) c = Some cd \<and> x \<in> set (studentList cd)"
  by (cases "map_of (classes d) c") (auto simp: studentsOf_def)

lemma classesOf_memberD:
  "y \<in> set (classesOf d s) \<Longrightarrow> \<exists>sd. map_of (students d) s = Some sd \<and> y \<in> set (classList sd)"
  by (cases "map_of (students d) s") (auto simp: classesOf_def)

lemma enroll_keeps_classes:
  "enroll cr s_opt c d = Some d' \<Longrightarrow> student cr \<in> set (studentList c) \<Longrightarrow> classes d' = classes d"
  by (cases s_opt) (auto simp: enroll_Some addClassToStudent_alt)

lemma enroll_keeps_students:
  "enroll cr (Some s) c d = Some d' \<Longrightarrow> class_id cr \<in> set (classList s) \<Longrightarrow>
   students d' = students d"
  by (auto simp: enroll_Some addClassToStudent_alt)

lemma approve_member_keeps_classes:
  assumes "map_of (requests d) (requestId rq) = Some cr"
    and "student cr \<in> set (studentsOf d (class_id cr))"
  shows "classes (snd (approveClassRequest e rq d)) = classes d"
proof -
  obtain c where c: "map_of (classes d) (class_id cr) = Some c" "student cr \<in> set (studentList c)"
    using studentsOf_memberD [OF assms(2)] by blast
  show ?thesis
    using assms(1) c
    by (auto simp: approveClassRequest_def Let_def split: option.splits
        dest!: enroll_keeps_classes)
qed

lemma approve_member_keeps_students:
  assumes "map_of (requests d) (requestId rq) = Some cr"
    and "class_id cr \<in> set (classesOf d (student cr))"
  shows "students (snd (approveClassRequest e rq d)) = students d"
proof -
  obtain s where s: "map_of (students d) (student cr) = Some s" "class_id cr \<in> set (classList s)"
    using classesOf_memberD [OF assms(2)] by blast
  show ?thesis
    using assms(1) s
    by (auto simp: approveClassRequest_def Let_def split: option.splits
        dest!: enroll_keeps_students)
qed

lemma updateStatus_fields [simp]:
  "classes (snd (updateStatus e rq cr s_opt c_opt d)) = classes d"
  "students (snd (updateStatus e rq cr s_opt c_opt d)) = students d"
  by (simp_all add: updateStatus_def Let_def)

lemma changeStatus_member_keeps_classes:
  assumes "map_of (requests d) (requestId rq) = Some cr" and "body_status rq = Approved"
    and "student cr \<in> set (studentsOf d (class_id cr))"
  shows "classes (snd (changeClassRequestStatus e rq d)) = classes d"
proof -
  obtain c where c: "map_of (classes d) (class_id cr) = Some c" "student cr \<in> set (studentList c)"
    using studentsOf_memberD [OF assms(3)] by blast
  show ?thesis
    using assms(1,2) c
    by (auto simp: changeClassRequestStatus_def Let_def split: option.splits
        dest!: enroll_keeps_classes)
qed

lemma changeStatus_member_keeps_students:
  assumes "map_of (requests d) (requestId rq) = Some cr" and "body_status rq = Approved"
    and "class_id cr \<in> set (classesOf d (student cr))"
  shows "students (snd (changeClassRequestStatus e rq d)) = students d"
proof -
  obtain s where s: "map_of (students d) (student cr) = Some s" "class_id cr \<in> set (classList s)"
    using classesOf_memberD [OF assms(3)] by blast
  show ?thesis
    using assms(1,2) s
    by (auto simp: changeClassRequestStatus_def Let_def split: option.splits
        dest!: enroll_keeps_students)
qed

lemma changeStatus_success_request:
  assumes "changeClassRequestStatus e rq d = (Inr cr1, d1)"
  shows "map_of (requests d1) (requestId rq) = Some cr1 \<and> status cr1 = body_status rq"
proof -
  have u: "updateStatus e rq cr s_opt c_opt d0 = (Inr cr1, d1) \<Longrightarrow>
      map_of (requests d1) (requestId rq) = Some cr1 \<and> status cr1 = body_status rq"
    for cr s_opt c_opt d0
    by (auto simp: updateStatus_def Let_def update_conv')
  show ?thesis using assms
    by (auto simp: changeClassRequestStatus_def Let_def split: option.splits if_splits dest: u)
qed

lemma changeStatus_same_keeps:
  assumes "map_of (requests d) (requestId rq) = Some cr"
    and "(status cr = Approved) = (body_status rq = Approved)"
  shows "classes (snd (changeClassRequestStatus e rq d)) = classes d \<and>
         students (snd (changeClassRequestStatus e rq d)) = students d"
  using assms by (auto simp: changeClassRequestStatus_def Let_def)


lemma approve_refuses_full:
  assumes "validationErrors rq = []"
    and "map_of (requests d) (requestId rq) = Some cr" and "status cr = Pending"
    and "map_of (students d) (student cr) = Some s"
    and "map_of (classes d) (class_id cr) = Some c"
    and "student cr \<notin> set (studentsOf d (class_id cr))"
    and "capacity c \<le> int (length (studentsOf d (class_id cr)))"
  shows "approveClassRequest e rq d = (Inl CapacityExceeded, d)"
  using assms
  by (simp add: approveClassRequest_def Let_def studentsOf_def capacityFull_Some populated_id_def)

lemma changeStatus_refuses_full:
  assumes "validationErrors rq = []"
    and "map_of (requests d) (requestId rq) = Some cr"
    and "status cr \<noteq> Approved" and "body_status rq = Approved"
    and "map_of (students d) (student cr) = Some s"
    and "map_of (classes d) (class_id cr) = Some c"
    and "student cr \<notin> set (studentsOf d (class_id cr))"
    and "capacity c \<le> int (length (studentsOf d (class_id cr)))"
  shows "changeClassRequestStatus e rq d = (Inl CapacityExceeded, d)"
  using assms
  by (simp add: changeClassRequestStatus_def Let_def studentsOf_def capacityFull_Some
      populated_id_def)


subsection \<open>The capacity invariant\<close>

text \<open>
  C1. If no class of the store holds more students than its capacity, then this is still so
  after any sequence of coordinator operations: approve and changeStatus in particular, and
  also reject, approveAllPending and the two deletions, whatever answers they give. The
  mechanism: approve (of a Pending request) and changeStatus into Approved (of a request
  that is not Approved) answer \<open>CapacityExceeded\<close> and change nothing when the student
  is not in the class's list and the list has reached the capacity.
\<close>

theorem capacity_invariant:
  "(capacity_ok d \<longrightarrow> capacity_ok (run ops d)) \<and>
   (validationErrors rq = [] \<longrightarrow> map_of (requests d) (requestId rq) = Some cr \<longrightarrow>
    map_of (students d) (student cr) = Some s \<longrightarrow> map_of (classes d) (class_id cr) = Some c \<longrightarrow>
    student cr \<notin> set (studentsOf d (class_id cr)) \<longrightarrow>
    capacity c \<le> int (length (studentsOf d (class_id cr))) \<longrightarrow>
      (status cr = Pending \<longrightarrow> approveClassRequest e rq d = (Inl CapacityExceeded, d)) \<and>
      (status cr \<noteq> Approved \<longrightarrow> body_status rq = Approved \<longrightarrow>
         changeClassRequestStatus e rq d = (Inl CapacityExceeded, d)))"
  using writes_capacity_ok [OF run_writes [of d ops]]
    approve_refuses_full [of rq d cr s c e] changeStatus_refuses_full [of rq d cr s c e]
  by blast

theorem capacity_invariant_witness:
  "capacity_ok store0 \<and>
   capacity_ok (run [Approve sink_up (admin_req 2 Approved), Approve sink_up (admin_req 3 Approved),
         ChangeStatus sink_down (admin_req 1 Approved)] store0) \<and>
   approveClassRequest sink_up (admin_req 3 Approved) store_full = (Inl CapacityExceeded, store_full) \<and>
   changeClassRequestStatus sink_up (admin_req 3 Approved) store_full =
     (Inl CapacityExceeded, store_full)"
proof -
  have ok: "capacity_ok store0"
    by (simp add: capacity_ok_def example_defs studentList_def)
  have h: "validationErrors (admin_req 3 Approved) = []"
    "map_of (requests store_full) (requestId (admin_req 3 Approved)) = Some (request_of 11 20 Pending)"
    "map_of (students store_full) (student (request_of 11 20 Pending)) = Some (student11 None)"
    "map_of (classes store_full) (class_id (request_of 11 20 Pending)) = Some (class20 (Some [10]))"
    "student (request_of 11 20 Pending) \<notin> set (studentsOf store_full (class_id (request_of 11 20 Pending)))"
    "capacity (class20 (Some [10])) \<le>
       int (length (studentsOf store_full (class_id (request_of 11 20 Pending))))"
    "status (request_of 11 20 Pending) = Pending" "status (request_of 11 20 Pending) \<noteq> Approved"
    "body_status (admin_req 3 Approved) = Approved"
    by (simp_all add: example_defs studentsOf_def studentList_def)
  note inst = capacity_invariant [where d = store0 and
      ops = "[Approve sink_up (admin_req 2 Approved), Approve sink_up (admin_req 3 Approved),
         ChangeStatus sink_down (admin_req 1 Approved)]"]
  note inst2 = capacity_invariant [where d = store_full and rq = "admin_req 3 Approved"
      and cr = "request_of 11 20 Pending" and s = "student11 None" and c = "class20 (Some [10])"
      and e = sink_up]
  show ?thesis using ok h inst inst2 by blast
qed


subsection \<open>No duplicate membership entries\<close>

text \<open>
  C4. No sequence of coordinator operations inserts a duplicate: for every class and student
  the number of occurrences of the student in the class's enrolledStudents is afterwards at
  most one, or at most what it was before; likewise for every class in every student's
  enrolledClasses. In particular, approve and changeStatus into Approved leave the classes
  collection untouched when the student is already in the class's list and the students
  collection untouched when the class is already in the student's list, and a second
  changeStatus into Approved after a successful one changes neither collection.
\<close>

theorem no_duplicate_membership:
  "count_list (studentsOf (run ops d) c) x \<le> max 1 (count_list (studentsOf d c) x) \<and>
   count_list (classesOf (run ops d) s) y \<le> max 1 (count_list (classesOf d s) y) \<and>
   (map_of (requests d) (requestId rq) = Some cr \<longrightarrow>
      (student cr \<in> set (studentsOf d (class_id cr)) \<longrightarrow>
         classes (snd (approveClassRequest e rq d)) = classes d \<and>
         (body_status rq = Approved \<longrightarrow> classes (snd (changeClassRequestStatus e rq d)) = classes d)) \<and>
      (class_id cr \<in> set (classesOf d (student cr)) \<longrightarrow>
         students (snd (approveClassRequest e rq d)) = students d \<and>
         (body_status rq = Approved \<longrightarrow> students (snd (changeClassRequestStatus e rq d)) = students d))) \<and>
   (body_status rq = Approved \<longrightarrow> changeClassRequestStatus e rq d = (Inr cr1, d1) \<longrightarrow>
    requestId rq' = requestId rq \<longrightarrow> body_status rq' = Approved \<longrightarrow>
      classes (snd (changeClassRequestStatus e' rq' d1)) = classes d1 \<and>
      students (snd (changeClassRequestStatus e' rq' d1)) = students d1)"
proof -
  have twice: "classes (snd (changeClassRequestStatus e' rq' d1)) = classes d1 \<and>
      students (snd (changeClassRequestStatus e' rq' d1)) = students d1"
    if "body_status rq = Approved" "changeClassRequestStatus e rq d = (Inr cr1, d1)"
      "requestId rq' = requestId rq" "body_status rq' = Approved"
    using changeStatus_success_request [OF that(2)] that(1,3,4)
      changeStatus_same_keeps [of d1 rq' cr1 e'] by simp
  show ?thesis
    using writes_no_duplicate [OF run_writes [of d ops], where c = c and x = x and s = s and y = y]
      approve_member_keeps_classes [of d rq cr e] approve_member_keeps_students [of d rq cr e]
      changeStatus_member_keeps_classes [of d rq cr e]
      changeStatus_member_keeps_students [of d rq cr e] twice
    by blast
qed


theorem no_duplicate_membership_witness:
  "map_of (requests store_member) (requestId (admin_req 1 Approved)) = Some (request_of 10 20 Pending) \<and>
   student (request_of 10 20 Pending) \<in> set (studentsOf store_member (class_id (request_of 10 20 Pending))) \<and>
   class_id (request_of 10 20 Pending) \<in> set (classesOf store_member (student (request_of 10 20 Pending))) \<and>
   classes (snd (approveClassRequest sink_up (admin_req 1 Approved) store_member)) = classes store_member \<and>
   students (snd (approveClassRequest sink_up (admin_req 1 Approved) store_member)) = students store_member \<and>
   classes (snd (changeClassRequestStatus sink_up (admin_req 1 Approved) store_member)) = classes store_member \<and>
   students (snd (changeClassRequestStatus sink_up (admin_req 1 Approved) store_member)) = students store_member \<and>
   count_list (studentsOf (run [Approve sink_up (admin_req 1 Approved),
        ChangeStatus sink_up (admin_req 1 Approved)] store_member) 20) 10 \<le> 1"
proof -
  have h: "map_of (requests store_member) (requestId (admin_req 1 Approved)) = Some (request_of 10 20 Pending)"
    "student (request_of 10 20 Pending) \<in> set (studentsOf store_member (class_id (request_of 10 20 Pending)))"
    "class_id (request_of 10 20 Pending) \<in> set (classesOf store_member (student (request_of 10 20 Pending)))"
    "body_status (admin_req 1 Approved) = Approved"
    by (simp_all add: store_member_def example_defs studentsOf_def studentList_def classesOf_def classList_def)
  have c: "count_list (studentsOf store_member 20) 10 = 1"
    by (simp add: store_member_def example_defs studentsOf_def studentList_def)
  note inst = no_duplicate_membership [where d = store_member and rq = "admin_req 1 Approved"
      and cr = "request_of 10 20 Pending" and e = sink_up and c = 20 and x = 10
      and ops = "[Approve sink_up (admin_req 1 Approved), ChangeStatus sink_up (admin_req 1 Approved)]"]
  show ?thesis using h c inst by simp
qed

subsection \<open>Approve, reject, approve again\<close>

lemma enroll_effect:
  assumes "map_of (classes d) (class_id cr) = Some c"
    and "map_of (students d) (student cr) = Some s"
  shows "\<exists>d' c' s'. enroll cr (Some s) c d = Some d' \<and> requests d' = requests d \<and>
     map_of (classes d') (class_id cr) = Some c' \<and> capacity c' = capacity c \<and>
     studentList c' = (if student cr \<in> set (studentList c) then studentList c
                       else studentList c @ [student cr]) \<and>
     map_of (students d') (student cr) = Some s' \<and>
     classList s' = (if class_id cr \<in> set (classList s) then classList s
                     else classList s @ [class_id cr])"
  using assms
  by (simp add: enroll_Some addClassToStudent_alt update_conv' studentList_def classList_def)

lemma filter_same_length: "length (filter P xs) = length xs \<Longrightarrow> filter P xs = xs"
  using length_filter_less [of _ xs P] by (fastforce simp: filter_id_conv)

lemma removeStudentFromClass_effect:
  assumes "map_of (classes d) (class_id cr) = Some c"
  shows "\<exists>d1 c'. removeStudentFromClass cr (Some s) (Some c) d = Some d1 \<and>
     requests d1 = requests d \<and> students d1 = students d \<and>
     map_of (classes d1) (class_id cr) = Some c' \<and> capacity c' = capacity c \<and>
     studentList c' = filter (\<lambda>i. i \<noteq> student cr) (studentList c)"
proof (cases "enrolledStudents c")
  case None
  then show ?thesis using assms
    by (simp add: removeStudentFromClass_def studentList_def)
next
  case (Some xs)
  show ?thesis
  proof (cases "filter (\<lambda>i. i \<noteq> student cr) xs = xs")
    case True
    then show ?thesis using assms Some
      by (simp add: removeStudentFromClass_def populated_id_def filter_out_Some studentList_def)
  next
    case False
    then have "length xs \<noteq> length (filter (\<lambda>i. i \<noteq> student cr) xs)"
      using filter_same_length [of "\<lambda>i. i \<noteq> student cr" xs] by auto
    then show ?thesis using assms Some
      by (simp add: removeStudentFromClass_def populated_id_def filter_out_Some studentList_def
          update_conv')
  qed
qed


lemma removeClassFromStudent_effect:
  assumes "map_of (students d) (student cr) = Some s"
  shows "\<exists>d1 s'. removeClassFromStudent cr (Some s) (Some c) d = Some d1 \<and>
     requests d1 = requests d \<and> classes d1 = classes d \<and>
     map_of (students d1) (student cr) = Some s' \<and>
     classList s' = filter (\<lambda>i. i \<noteq> class_id cr) (classList s)"
proof (cases "enrolledClasses s")
  case None
  then show ?thesis using assms
    by (simp add: removeClassFromStudent_def classList_def)
next
  case (Some ys)
  show ?thesis
  proof (cases "filter (\<lambda>i. i \<noteq> class_id cr) ys = ys")
    case True
    then show ?thesis using assms Some
      by (simp add: removeClassFromStudent_def populated_id_def filter_out_Some classList_def)
  next
    case False
    then have "length ys \<noteq> length (filter (\<lambda>i. i \<noteq> class_id cr) ys)"
      using filter_same_length [of "\<lambda>i. i \<noteq> class_id cr" ys] by auto
    then show ?thesis using assms Some
      by (simp add: removeClassFromStudent_def populated_id_def filter_out_Some classList_def
          update_conv')
  qed
qed

lemma removeMembership_effect:
  assumes "map_of (classes d) (class_id cr) = Some c"
    and "map_of (students d) (student cr) = Some s"
  shows "\<exists>c' s'. requests (removeMembership cr (Some s) (Some c) d) = requests d \<and>
     map_of (classes (removeMembership cr (Some s) (Some c) d)) (class_id cr) = Some c' \<and>
     capacity c' = capacity c \<and>
     studentList c' = filter (\<lambda>i. i \<noteq> student cr) (studentList c) \<and>
     map_of (students (removeMembership cr (Some s) (Some c) d)) (student cr) = Some s' \<and>
     classList s' = filter (\<lambda>i. i \<noteq> class_id cr) (classList s)"
proof -
  obtain d1 c' where d1: "removeStudentFromClass cr (Some s) (Some c) d = Some d1"
    "requests d1 = requests d" "students d1 = students d"
    "map_of (classes d1) (class_id cr) = Some c'" "capacity c' = capacity c"
    "studentList c' = filter (\<lambda>i. i \<noteq> student cr) (studentList c)"
    using removeStudentFromClass_effect [OF assms(1)] by blast
  have s1: "map_of (students d1) (student cr) = Some s" using assms(2) d1(3) by simp
  obtain d2 s' where d2: "removeClassFromStudent cr (Some s) (Some c) d1 = Some d2"
    "requests d2 = requests d1" "classes d2 = classes d1"
    "map_of (students d2) (student cr) = Some s'"
    "classList s' = filter (\<lambda>i. i \<noteq> class_id cr) (classList s)"
    using removeClassFromStudent_effect [OF s1] by blast
  have "removeMembership cr (Some s) (Some c) d = d2"
    by (simp add: removeMembership_def d1(1) d2(1))
  then show ?thesis using d1 d2 by simp
qed

lemma approve_success:
  assumes "approveClassRequest e rq d = (Inr r, d1)"
  shows "\<exists>cr c s c' s'. map_of (requests d) (requestId rq) = Some cr \<and> status cr = Pending \<and>
     map_of (classes d) (class_id cr) = Some c \<and> map_of (students d) (student cr) = Some s \<and>
     student r = student cr \<and> class_id r = class_id cr \<and> status r = Approved \<and>
     map_of (requests d1) (requestId rq) = Some r \<and>
     map_of (classes d1) (class_id cr) = Some c' \<and> capacity c' = capacity c \<and>
     studentList c' = (if student cr \<in> set (studentList c) then studentList c
                       else studentList c @ [student cr]) \<and>
     map_of (students d1) (student cr) = Some s' \<and>
     classList s' = (if class_id cr \<in> set (classList s) then classList s
                     else classList s @ [class_id cr])"
proof -
  obtain cr where cr: "validationErrors rq = []" "map_of (requests d) (requestId rq) = Some cr"
    "status cr = Pending"
    using assms by (auto simp: approveClassRequest_def split: option.splits if_splits)
  obtain c where c: "map_of (classes d) (class_id cr) = Some c"
    using assms cr by (auto simp: approveClassRequest_def Let_def split: option.splits if_splits)
  obtain s where s: "map_of (students d) (student cr) = Some s"
    using assms cr c
    by (cases "map_of (students d) (student cr)")
      (auto simp: approveClassRequest_def Let_def split: option.splits if_splits)
  define cr' where "cr' = cr\<lparr>status := Approved,
      adminResponse := Some \<lparr>actionBy = user_id rq, actionDate = now e,
        actionNote = noteOr (adminNote rq) ''Request approved''\<rparr>\<rparr>"
  let ?d1 = "save_request (requestId rq) cr' d"
  obtain d2 c' s' where d2: "enroll cr' (Some s) c ?d1 = Some d2" "requests d2 = requests ?d1"
    "map_of (classes d2) (class_id cr') = Some c'" "capacity c' = capacity c"
    "studentList c' = (if student cr' \<in> set (studentList c) then studentList c
                       else studentList c @ [student cr'])"
    "map_of (students d2) (student cr') = Some s'"
    "classList s' = (if class_id cr' \<in> set (classList s) then classList s
                     else classList s @ [class_id cr'])"
    using enroll_effect [of ?d1 cr' c s] c s by (auto simp: cr'_def)
  have "r = cr' \<and> requests d1 = requests d2 \<and> classes d1 = classes d2 \<and> students d1 = students d2"
    using assms cr c s d2(1)
    by (auto simp: approveClassRequest_def Let_def cr'_def split: option.splits if_splits)
  then show ?thesis
    using cr c s d2 by (simp add: cr'_def update_conv')
qed


lemma changeStatus_away_effect:
  assumes "validationErrors rq = []" and "map_of (requests d) (requestId rq) = Some cr"
    and "status cr = Approved" and "body_status rq \<noteq> Approved"
    and "map_of (classes d) (class_id cr) = Some c"
    and "map_of (students d) (student cr) = Some s"
  shows "\<exists>r d' c' s'. changeClassRequestStatus e rq d = (Inr r, d') \<and>
     map_of (requests d') (requestId rq) = Some r \<and> status r = body_status rq \<and>
     student r = student cr \<and> class_id r = class_id cr \<and>
     map_of (classes d') (class_id cr) = Some c' \<and> capacity c' = capacity c \<and>
     studentList c' = filter (\<lambda>i. i \<noteq> student cr) (studentList c) \<and>
     map_of (students d') (student cr) = Some s' \<and>
     classList s' = filter (\<lambda>i. i \<noteq> class_id cr) (classList s)"
proof -
  let ?d1 = "removeMembership cr (Some s) (Some c) d"
  obtain c' s' where m: "requests ?d1 = requests d"
    "map_of (classes ?d1) (class_id cr) = Some c'" "capacity c' = capacity c"
    "studentList c' = filter (\<lambda>i. i \<noteq> student cr) (studentList c)"
    "map_of (students ?d1) (student cr) = Some s'"
    "classList s' = filter (\<lambda>i. i \<noteq> class_id cr) (classList s)"
    using removeMembership_effect [OF assms(5,6)] by blast
  obtain r d' where u: "updateStatus e rq cr (Some s) (Some c) ?d1 = (Inr r, d')"
    "r = cr\<lparr>status := body_status rq,
              adminResponse := Some \<lparr>actionBy = user_id rq, actionDate = now e,
                actionNote = noteOr (adminNote rq)
                  (''Status changed from '' @ statusName (status cr) @ '' to '' @
                   statusName (body_status rq))\<rparr>\<rparr>"
    "requests d' = AList.update (requestId rq) r (requests ?d1)"
    "students d' = students ?d1" "classes d' = classes ?d1"
    using updateStatus_result [of e rq cr "Some s" "Some c" ?d1] by blast
  have "changeClassRequestStatus e rq d = (Inr r, d')"
    using assms u(1) by (simp add: changeClassRequestStatus_def Let_def)
  moreover have "map_of (requests d') (requestId rq) = Some r"
    using u(3) by (simp add: update_conv')
  ultimately show ?thesis using m u(2,4,5) by simp
qed

lemma changeStatus_into_effect:
  assumes "validationErrors rq = []" and "map_of (requests d) (requestId rq) = Some cr"
    and "status cr \<noteq> Approved" and "body_status rq = Approved"
    and "map_of (classes d) (class_id cr) = Some c"
    and "map_of (students d) (student cr) = Some s"
    and "student cr \<in> set (studentList c) \<or> int (length (studentList c)) < capacity c"
  shows "\<exists>r d' c' s'. changeClassRequestStatus e rq d = (Inr r, d') \<and>
     map_of (requests d') (requestId rq) = Some r \<and> status r = Approved \<and>
     student r = student cr \<and> class_id r = class_id cr \<and>
     map_of (classes d') (class_id cr) = Some c' \<and> capacity c' = capacity c \<and>
     studentList c' = (if student cr \<in> set (studentList c) then studentList c
                       else studentList c @ [student cr]) \<and>
     map_of (students d') (student cr) = Some s' \<and>
     classList s' = (if class_id cr \<in> set (classList s) then classList s
                     else classList s @ [class_id cr])"
proof -
  obtain d1 c' s' where m: "enroll cr (Some s) c d = Some d1" "requests d1 = requests d"
    "map_of (classes d1) (class_id cr) = Some c'" "capacity c' = capacity c"
    "studentList c' = (if student cr \<in> set (studentList c) then studentList c
                       else studentList c @ [student cr])"
    "map_of (students d1) (student cr) = Some s'"
    "classList s' = (if class_id cr \<in> set (classList s) then classList s
                     else classList s @ [class_id cr])"
    using enroll_effect [OF assms(5,6)] by blast
  obtain r d' where u: "updateStatus e rq cr (Some s) (Some c) d1 = (Inr r, d')"
    "r = cr\<lparr>status := body_status rq,
              adminResponse := Some \<lparr>actionBy = user_id rq, actionDate = now e,
                actionNote = noteOr (adminNote rq)
                  (''Status changed from '' @ statusName (status cr) @ '' to '' @
                   statusName (body_status rq))\<rparr>\<rparr>"
    "requests d' = AList.update (requestId rq) r (requests d1)"
    "students d' = students d1" "classes d' = classes d1"
    using updateStatus_result [of e rq cr "Some s" "Some c" d1] by blast
  have full: "capacityFull c (populated_id (student cr) (Some s)) = Some False"
    using assms(7) by (auto simp: capacityFull_Some populated_id_def)
  have "changeClassRequestStatus e rq d = (Inr r, d')"
    using assms(1-6) u(1) m(1) full by (simp add: changeClassRequestStatus_def Let_def)
  moreover have "map_of (requests d') (requestId rq) = Some r"
    using u(3) by (simp add: update_conv')
  ultimately show ?thesis using m u(2,4,5) assms(4) by simp
qed

lemma count_list_filter_out: "count_list (filter (\<lambda>i. i \<noteq> t) xs) t = 0"
  by (induction xs) auto


text \<open>
  C5. In a store that respects the capacities, let \<open>approveClassRequest\<close> succeed on a
  request (which is then Pending before the call). Then \<open>changeClassRequestStatus\<close> to
  Rejected on the same request succeeds, \<open>changeClassRequestStatus\<close> back to Approved
  succeeds, and afterwards the student occurs exactly once in the enrolledStudents of the
  class and the class exactly once in the enrolledClasses of the student. The three calls
  may differ in actor, note, clock and notification outcome.
\<close>

theorem approve_reject_approve_roundtrip:
  assumes "validationErrors rq2 = []" and "validationErrors rq3 = []"
    and "requestId rq2 = requestId rq1" and "requestId rq3 = requestId rq1"
    and "body_status rq2 = Rejected" and "body_status rq3 = Approved"
    and "map_of (requests d) (requestId rq1) = Some cr"
    and "capacity_ok d"
    and "approveClassRequest e1 rq1 d = (Inr r1, d1)"
  shows "status cr = Pending \<and>
    (\<exists>r2 d2 r3 d3. changeClassRequestStatus e2 rq2 d1 = (Inr r2, d2) \<and> status r2 = Rejected \<and>
       changeClassRequestStatus e3 rq3 d2 = (Inr r3, d3) \<and> status r3 = Approved \<and>
       map_of (requests d3) (requestId rq1) = Some r3 \<and>
       count_list (studentsOf d3 (class_id cr)) (student cr) = 1 \<and>
       count_list (classesOf d3 (student cr)) (class_id cr) = 1)"
proof -
  obtain c s c1 s1 where a: "status cr = Pending"
    "map_of (classes d) (class_id cr) = Some c" "map_of (students d) (student cr) = Some s"
    "student r1 = student cr" "class_id r1 = class_id cr" "status r1 = Approved"
    "map_of (requests d1) (requestId rq1) = Some r1"
    "map_of (classes d1) (class_id cr) = Some c1" "capacity c1 = capacity c"
    "studentList c1 = (if student cr \<in> set (studentList c) then studentList c
                       else studentList c @ [student cr])"
    "map_of (students d1) (student cr) = Some s1"
    using approve_success [OF assms(9)] assms(7) by auto
  have ok1: "capacity_ok d1"
    using writes_capacity_ok [OF approve_writes [of d e1 rq1]] assms(8,9) by simp
  have in1: "student cr \<in> set (studentList c1)" using a(10) by simp
  have len1: "int (length (studentList c1)) \<le> capacity c1"
    using capacity_ok_entry [OF ok1 a(8)] .
  obtain r2 d2 c2 s2 where b: "changeClassRequestStatus e2 rq2 d1 = (Inr r2, d2)"
    "map_of (requests d2) (requestId rq2) = Some r2" "status r2 = body_status rq2"
    "student r2 = student r1" "class_id r2 = class_id r1"
    "map_of (classes d2) (class_id r1) = Some c2" "capacity c2 = capacity c1"
    "studentList c2 = filter (\<lambda>i. i \<noteq> student r1) (studentList c1)"
    "map_of (students d2) (student r1) = Some s2"
    "classList s2 = filter (\<lambda>i. i \<noteq> class_id r1) (classList s1)"
    using changeStatus_away_effect [of rq2 d1 r1 c1 s1 e2] assms(1,3,5) a by auto
  have "length (studentList c2) < length (studentList c1)"
    unfolding b(8) using in1 a(4) by (intro length_filter_less [of "student cr"]) simp_all
  then have room: "int (length (studentList c2)) < capacity c2"
    using len1 b(7) by linarith
  have st2: "status r2 \<noteq> Approved" using b(3) assms(5) by simp
  obtain r3 d3 c3 s3 where c: "changeClassRequestStatus e3 rq3 d2 = (Inr r3, d3)"
    "map_of (requests d3) (requestId rq3) = Some r3" "status r3 = Approved"
    "map_of (classes d3) (class_id r2) = Some c3"
    "studentList c3 = (if student r2 \<in> set (studentList c2) then studentList c2
                       else studentList c2 @ [student r2])"
    "map_of (students d3) (student r2) = Some s3"
    "classList s3 = (if class_id r2 \<in> set (classList s2) then classList s2
                     else classList s2 @ [class_id r2])"
    using changeStatus_into_effect [of rq3 d2 r2 c2 s2 e3] assms(2,3,4,6) b st2 room by auto
  have ids: "student r2 = student cr" "class_id r2 = class_id cr"
    using a(4,5) b(4,5) by simp_all
  have "count_list (studentList c3) (student cr) = 1"
    using c(5) b(8) ids a(4) by (simp add: count_list_append1 count_list_filter_out)
  moreover have "count_list (classList s3) (class_id cr) = 1"
    using c(7) b(10) ids a(5) by (simp add: count_list_append1 count_list_filter_out)
  ultimately have "count_list (studentsOf d3 (class_id cr)) (student cr) = 1"
    "count_list (classesOf d3 (student cr)) (class_id cr) = 1"
    using c(4,6) ids by (simp_all add: studentsOf_def classesOf_def)
  then show ?thesis using a(1) b(1,3) c(1,2,3) assms(4,5) by auto
qed


theorem approve_reject_approve_roundtrip_witness:
  "capacity_ok store0 \<and>
   map_of (requests store0) (requestId (admin_req 2 Approved)) = Some (request_of 10 20 Pending) \<and>
   (\<exists>r1 d1 r2 d2 r3 d3.
      approveClassRequest sink_up (admin_req 2 Approved) store0 = (Inr r1, d1) \<and>
      changeClassRequestStatus sink_down (admin_req 2 Rejected) d1 = (Inr r2, d2) \<and>
      changeClassRequestStatus sink_up (admin_req 2 Approved) d2 = (Inr r3, d3) \<and>
      count_list (studentsOf d3 20) 10 = 1 \<and> count_list (classesOf d3 10) 20 = 1)"
proof -
  have ok: "capacity_ok store0"
    by (simp add: capacity_ok_def example_defs studentList_def)
  have rq: "map_of (requests store0) (requestId (admin_req 2 Approved)) = Some (request_of 10 20 Pending)"
    by (simp add: example_defs)
  obtain r1 d1 where a: "approveClassRequest sink_up (admin_req 2 Approved) store0 = (Inr r1, d1)"
    by (simp add: example_defs approveClassRequest_def Let_def capacityFull_Some populated_id_def
        enroll_Some studentList_def)
  have v: "validationErrors (admin_req 2 Rejected) = []" "validationErrors (admin_req 2 Approved) = []"
    "requestId (admin_req 2 Rejected) = requestId (admin_req 2 Approved)"
    "body_status (admin_req 2 Rejected) = Rejected" "body_status (admin_req 2 Approved) = Approved"
    by (simp_all add: admin_req_def)
  have "class_id (request_of 10 20 Pending) = 20" "student (request_of 10 20 Pending) = 10"
    by (simp_all add: request_of_def)
  then show ?thesis
    using approve_reject_approve_roundtrip [OF v(1) v(2) v(3) refl v(4) v(5) rq ok a,
        of sink_down sink_up] ok rq a
    by auto
qed

subsection \<open>Bulk approval\<close>

lemma grows_refl: "grows d d"
  by (simp add: grows_def)

lemma grows_trans:
  assumes "grows d d1" and "grows d1 d2"
  shows "grows d d2"
  unfolding grows_def
proof (intro conjI allI impI)
  fix c cd
  assume h: "map_of (classes d) c = Some cd"
  then obtain cd1 where c1: "map_of (classes d1) c = Some cd1" "capacity cd1 = capacity cd"
    "set (studentList cd) \<subseteq> set (studentList cd1)"
    "capacity cd \<le> int (length (studentList cd)) \<longrightarrow> studentList cd1 = studentList cd"
    using assms(1) unfolding grows_def by blast
  then obtain cd2 where c2: "map_of (classes d2) c = Some cd2" "capacity cd2 = capacity cd1"
    "set (studentList cd1) \<subseteq> set (studentList cd2)"
    "capacity cd1 \<le> int (length (studentList cd1)) \<longrightarrow> studentList cd2 = studentList cd1"
    using assms(2) unfolding grows_def by blast
  show "\<exists>cd'. map_of (classes d2) c = Some cd' \<and> capacity cd' = capacity cd \<and>
          set (studentList cd) \<subseteq> set (studentList cd') \<and>
          (capacity cd \<le> int (length (studentList cd)) \<longrightarrow> studentList cd' = studentList cd)"
    using c1 c2 by (intro exI [of _ cd2]) auto
next
  fix s sd
  assume h: "map_of (students d) s = Some sd"
  then obtain sd1 where s1: "map_of (students d1) s = Some sd1"
    "set (classList sd) \<subseteq> set (classList sd1)"
    using assms(1) unfolding grows_def by blast
  then obtain sd2 where s2: "map_of (students d2) s = Some sd2"
    "set (classList sd1) \<subseteq> set (classList sd2)"
    using assms(2) unfolding grows_def by blast
  show "\<exists>sd'. map_of (students d2) s = Some sd' \<and> set (classList sd) \<subseteq> set (classList sd')"
    using s1 s2 by (intro exI [of _ sd2]) auto
qed

lemma grows_maps:
  assumes "map_of (classes d) cid = Some c" and "map_of (students d) sid = Some s"
    and "map_of (classes d') = (map_of (classes d))(cid \<mapsto> c')"
    and "map_of (students d') = (map_of (students d))(sid \<mapsto> s')"
    and "capacity c' = capacity c"
    and "set (studentList c) \<subseteq> set (studentList c')"
    and "capacity c \<le> int (length (studentList c)) \<longrightarrow> studentList c' = studentList c"
    and "set (classList s) \<subseteq> set (classList s')"
  shows "grows d d'"
  unfolding grows_def using assms by auto

lemma enroll_maps:
  assumes "map_of (classes d) (class_id cr) = Some c"
    and "map_of (students d) (student cr) = Some s"
  shows "\<exists>d' c' s'. enroll cr (Some s) c d = Some d' \<and> requests d' = requests d \<and>
     map_of (classes d') = (map_of (classes d))(class_id cr \<mapsto> c') \<and> capacity c' = capacity c \<and>
     studentList c' = (if student cr \<in> set (studentList c) then studentList c
                       else studentList c @ [student cr]) \<and>
     map_of (students d') = (map_of (students d))(student cr \<mapsto> s') \<and>
     classList s' = (if class_id cr \<in> set (classList s) then classList s
                     else classList s @ [class_id cr])"
proof -
  define c' where "c' = (if student cr \<in> set (studentList c) then c
      else c\<lparr>enrolledStudents := Some (studentList c @ [student cr])\<rparr>)"
  define s' where "s' = (if class_id cr \<in> set (classList s) then s
      else s\<lparr>enrolledClasses := Some (classList s @ [class_id cr])\<rparr>)"
  define d' where "d' = addClassToStudent (student cr) s (class_id cr)
            (if student cr \<in> set (studentList c) then d
             else save_class (class_id cr)
                    (c\<lparr>enrolledStudents := Some (studentList c @ [student cr])\<rparr>) d)"
  have 1: "enroll cr (Some s) c d = Some d'" by (simp add: enroll_Some d'_def)
  have 2: "requests d' = requests d" by (simp add: d'_def addClassToStudent_alt)
  have 3: "map_of (classes d') = (map_of (classes d))(class_id cr \<mapsto> c')"
    using assms(1) by (auto simp: d'_def c'_def addClassToStudent_alt update_conv' map_upd_triv)
  have 4: "map_of (students d') = (map_of (students d))(student cr \<mapsto> s')"
    using assms(2) by (auto simp: d'_def s'_def addClassToStudent_alt update_conv' map_upd_triv)
  have 5: "capacity c' = capacity c" by (simp add: c'_def)
  have 6: "studentList c' = (if student cr \<in> set (studentList c) then studentList c
                       else studentList c @ [student cr])"
    by (simp add: c'_def studentList_def)
  have 7: "classList s' = (if class_id cr \<in> set (classList s) then classList s
                     else classList s @ [class_id cr])"
    by (simp add: s'_def classList_def)
  show ?thesis using 1 2 3 4 5 6 7 by blast
qed

lemma approveOne_refused:
  assumes "map_of (classes d) (class_id cr) = Some c"
    and "map_of (students d) (student cr) = Some s"
    and "student cr \<notin> set (studentList c)" and "capacity c \<le> int (length (studentList c))"
  shows "approveOne e rq rid cr d =
     (Failed \<lparr>studentName = firstName s @ '' '' @ lastName s,
              className = grade c @ '' - '' @ category c,
              failReason = ''Class is at full capacity''\<rparr>, d)"
  using assms by (simp add: approveOne_def Let_def capacityFull_Some populated_id_def)

lemma approveOne_done:
  assumes "map_of (classes d) (class_id cr) = Some c"
    and "map_of (students d) (student cr) = Some s"
    and "student cr \<in> set (studentList c) \<or> int (length (studentList c)) < capacity c"
  shows "\<exists>d1 c' s' cr'. approveOne e rq rid cr d = (Done, d1) \<and>
     status cr' = Approved \<and> student cr' = student cr \<and> class_id cr' = class_id cr \<and>
     requests d1 = AList.update rid cr' (requests d) \<and>
     map_of (classes d1) = (map_of (classes d))(class_id cr \<mapsto> c') \<and> capacity c' = capacity c \<and>
     studentList c' = (if student cr \<in> set (studentList c) then studentList c
                       else studentList c @ [student cr]) \<and>
     map_of (students d1) = (map_of (students d))(student cr \<mapsto> s') \<and>
     classList s' = (if class_id cr \<in> set (classList s) then classList s
                     else classList s @ [class_id cr])"
proof -
  obtain d' c' s' where m: "enroll cr (Some s) c d = Some d'" "requests d' = requests d"
    "map_of (classes d') = (map_of (classes d))(class_id cr \<mapsto> c')" "capacity c' = capacity c"
    "studentList c' = (if student cr \<in> set (studentList c) then studentList c
                       else studentList c @ [student cr])"
    "map_of (students d') = (map_of (students d))(student cr \<mapsto> s')"
    "classList s' = (if class_id cr \<in> set (classList s) then classList s
                     else classList s @ [class_id cr])"
    using enroll_maps [OF assms(1,2)] by blast
  have full: "capacityFull c (populated_id (student cr) (Some s)) = Some False"
    using assms(3) by (auto simp: capacityFull_Some populated_id_def)
  define cr' where "cr' = cr\<lparr>status := Approved,
      adminResponse := Some \<lparr>actionBy = user_id rq, actionDate = now e,
        actionNote = noteOr (adminNote rq) ''Bulk approval by administrator''\<rparr>\<rparr>"
  obtain d1 where d1: "approveOne e rq rid cr d = (Done, d1)"
    "requests d1 = AList.update rid cr' (requests d')" "classes d1 = classes d'"
    "students d1 = students d'"
    using assms(1,2) full m(1) by (simp add: approveOne_def Let_def cr'_def)
  have cr': "status cr' = Approved" "student cr' = student cr" "class_id cr' = class_id cr"
    by (simp_all add: cr'_def)
  have r: "requests d1 = AList.update rid cr' (requests d)" using d1(2) m(2) by simp
  have c: "map_of (classes d1) = (map_of (classes d))(class_id cr \<mapsto> c')"
    using d1(3) m(3) by simp
  have st: "map_of (students d1) = (map_of (students d))(student cr \<mapsto> s')"
    using d1(4) m(6) by simp
  show ?thesis
    using d1(1) cr' r c m(4) m(5) st m(7) by blast
qed


lemma membership_grows:
  assumes "grows d d'" and "membership d cr"
  shows "membership d' cr"
proof -
  obtain cd where cd: "map_of (classes d) (class_id cr) = Some cd" "student cr \<in> set (studentList cd)"
    using assms(2) studentsOf_memberD unfolding membership_def by blast
  obtain sd where sd: "map_of (students d) (student cr) = Some sd" "class_id cr \<in> set (classList sd)"
    using assms(2) classesOf_memberD unfolding membership_def by blast
  obtain cd' where cd': "map_of (classes d') (class_id cr) = Some cd'"
    "set (studentList cd) \<subseteq> set (studentList cd')"
    using assms(1) cd(1) unfolding grows_def by blast
  obtain sd' where sd': "map_of (students d') (student cr) = Some sd'"
    "set (classList sd) \<subseteq> set (classList sd')"
    using assms(1) sd(1) unfolding grows_def by blast
  show ?thesis
    using cd cd' sd sd' by (auto simp: membership_def studentsOf_def classesOf_def)
qed

lemma references_exist_grows:
  assumes "grows d d'" and "references_exist d ps"
  shows "references_exist d' ps"
proof -
  have "map_of (students d') s \<noteq> None" if "map_of (students d) s \<noteq> None" for s
    using assms(1) that unfolding grows_def by fastforce
  moreover have "map_of (classes d') c \<noteq> None" if "map_of (classes d) c \<noteq> None" for c
    using assms(1) that unfolding grows_def by fastforce
  ultimately show ?thesis
    using assms(2) unfolding references_exist_def list_all_iff by fast
qed

lemma approveLoop_correct:
  assumes "distinct (map fst ps)"
    and "\<forall>(rid, cr) \<in> set ps. map_of (requests d) rid = Some cr \<and> status cr = Pending"
    and "references_exist d ps"
  shows "\<exists>gs d'. approveLoop e rq ps a f fs d =
            (Some (a + length (filter (approved_in d') ps),
                   f + length (filter (refused_in d') ps), fs @ gs), d') \<and>
          length gs = length (filter (refused_in d') ps) \<and>
          list_all (\<lambda>g. failReason g = ''Class is at full capacity'') gs \<and>
          (\<forall>p \<in> set ps. approved_in d' p \<noteq> refused_in d' p) \<and>
          grows d d' \<and>
          map fst (requests d') = map fst (requests d) \<and>
          (\<forall>rid. rid \<notin> fst ` set ps \<longrightarrow> map_of (requests d') rid = map_of (requests d) rid) \<and>
          (\<forall>rid cr'. map_of (requests d') rid = Some cr' \<longrightarrow>
             (\<exists>cr. map_of (requests d) rid = Some cr \<and> student cr' = student cr \<and>
                   class_id cr' = class_id cr)) \<and>
          filter (refused_in d') ps = spec_refused (capacityOf d) (studentsOf d) ps"
  using assms
proof (induction ps arbitrary: a f fs d)
  case Nil
  show ?case by (simp add: grows_refl)
next
  case (Cons p ps)
  obtain rid cr where p: "p = (rid, cr)" by (cases p)
  have rq0: "map_of (requests d) rid = Some cr" and pend: "status cr = Pending"
    using Cons.prems(2) p by auto
  obtain s c where s: "map_of (students d) (student cr) = Some s"
    and c: "map_of (classes d) (class_id cr) = Some c"
    using Cons.prems(3) p by (auto simp: references_exist_def)
  have fresh: "rid \<notin> fst ` set ps" and dist: "distinct (map fst ps)"
    using Cons.prems(1) p by auto
  have rest0: "\<forall>(rid', cr') \<in> set ps. map_of (requests d) rid' = Some cr' \<and> status cr' = Pending"
    using Cons.prems(2) by auto
  have refs0: "references_exist d ps"
    using Cons.prems(3) by (simp add: references_exist_def)
  show ?case
  proof (cases "student cr \<notin> set (studentList c) \<and> capacity c \<le> int (length (studentList c))")
    case True
    define g where "g = \<lparr>studentName = firstName s @ '' '' @ lastName s,
              className = grade c @ '' - '' @ category c,
              failReason = ''Class is at full capacity''\<rparr>"
    have one: "approveOne e rq rid cr d = (Failed g, d)"
      using approveOne_refused [OF c s] True by (simp add: g_def)
    obtain gs d' where ih:
      "approveLoop e rq ps a (f + 1) (fs @ [g]) d =
            (Some (a + length (filter (approved_in d') ps),
                   (f + 1) + length (filter (refused_in d') ps), (fs @ [g]) @ gs), d')"
      "length gs = length (filter (refused_in d') ps)"
      "list_all (\<lambda>g. failReason g = ''Class is at full capacity'') gs"
      "\<forall>p \<in> set ps. approved_in d' p \<noteq> refused_in d' p"
      "grows d d'"
      "map fst (requests d') = map fst (requests d)"
      "\<forall>rid. rid \<notin> fst ` set ps \<longrightarrow> map_of (requests d') rid = map_of (requests d) rid"
      "\<forall>rid cr'. map_of (requests d') rid = Some cr' \<longrightarrow>
             (\<exists>cr. map_of (requests d) rid = Some cr \<and> student cr' = student cr \<and>
                   class_id cr' = class_id cr)"
      "filter (refused_in d') ps = spec_refused (capacityOf d) (studentsOf d) ps"
      using Cons.IH [OF dist rest0 refs0, of a "f + 1" "fs @ [g]"] by blast
    have rq': "map_of (requests d') rid = Some cr" using ih(7) fresh rq0 by simp
    obtain cd' where cd': "map_of (classes d') (class_id cr) = Some cd'"
      "studentList cd' = studentList c" "capacity cd' = capacity c"
      using ih(5) c True unfolding grows_def by blast
    have ref: "refused_in d' p"
      using rq' pend cd' True by (simp add: refused_in_def p)
    have napp: "\<not> approved_in d' p"
      using rq' pend by (simp add: approved_in_def p)
    have "approveLoop e rq (p # ps) a f fs d =
            (Some (a + length (filter (approved_in d') (p # ps)),
                   f + length (filter (refused_in d') (p # ps)), fs @ (g # gs)), d')"
      using one ih(1) ref napp by (simp add: p)
    moreover have "length (g # gs) = length (filter (refused_in d') (p # ps))"
      using ih(2) ref by simp
    moreover have "list_all (\<lambda>g. failReason g = ''Class is at full capacity'') (g # gs)"
      using ih(3) by (simp add: g_def)
    moreover have "\<forall>q \<in> set (p # ps). approved_in d' q \<noteq> refused_in d' q"
      using ih(4) ref napp by simp
    moreover have "\<forall>r. r \<notin> fst ` set (p # ps) \<longrightarrow> map_of (requests d') r = map_of (requests d) r"
      using ih(7) by simp
    moreover have "filter (refused_in d') (p # ps) =
        spec_refused (capacityOf d) (studentsOf d) (p # ps)"
      using ih(9) ref True c by (simp add: p capacityOf_def studentsOf_def)
    ultimately show ?thesis using ih(5,6,8) by blast
  next
    case False
    then have room: "student cr \<in> set (studentList c) \<or> int (length (studentList c)) < capacity c"
      by auto
    obtain d1 c' s' cr1 where one: "approveOne e rq rid cr d = (Done, d1)"
      and cr1: "status cr1 = Approved" "student cr1 = student cr" "class_id cr1 = class_id cr"
      and r1: "requests d1 = AList.update rid cr1 (requests d)"
      and c1: "map_of (classes d1) = (map_of (classes d))(class_id cr \<mapsto> c')"
        "capacity c' = capacity c"
        "studentList c' = (if student cr \<in> set (studentList c) then studentList c
                       else studentList c @ [student cr])"
      and s1: "map_of (students d1) = (map_of (students d))(student cr \<mapsto> s')"
        "classList s' = (if class_id cr \<in> set (classList s) then classList s
                     else classList s @ [class_id cr])"
      using approveOne_done [OF c s room, of e rq rid] by blast
    have g1: "grows d d1"
      using c s c1 s1 room by (intro grows_maps [of d "class_id cr" c "student cr" s d1 c' s']) auto
    have m1: "membership d1 cr"
      using c1 s1 by (auto simp: membership_def studentsOf_def classesOf_def)
    have rest1: "\<forall>(rid', cr') \<in> set ps. map_of (requests d1) rid' = Some cr' \<and> status cr' = Pending"
    proof (intro ballI, clarify)
      fix rid' cr'
      assume in_ps: "(rid', cr') \<in> set ps"
      then have "rid' \<noteq> rid" using fresh by force
      moreover have "map_of (requests d) rid' = Some cr' \<and> status cr' = Pending"
        using rest0 in_ps by auto
      ultimately show "map_of (requests d1) rid' = Some cr' \<and> status cr' = Pending"
        by (simp add: r1 update_conv')
    qed
    have refs1: "references_exist d1 ps"
      using references_exist_grows [OF g1 refs0] .
    obtain gs d' where ih:
      "approveLoop e rq ps (a + 1) f fs d1 =
            (Some ((a + 1) + length (filter (approved_in d') ps),
                   f + length (filter (refused_in d') ps), fs @ gs), d')"
      "length gs = length (filter (refused_in d') ps)"
      "list_all (\<lambda>g. failReason g = ''Class is at full capacity'') gs"
      "\<forall>p \<in> set ps. approved_in d' p \<noteq> refused_in d' p"
      "grows d1 d'"
      "map fst (requests d') = map fst (requests d1)"
      "\<forall>rid. rid \<notin> fst ` set ps \<longrightarrow> map_of (requests d') rid = map_of (requests d1) rid"
      "\<forall>rid cr'. map_of (requests d') rid = Some cr' \<longrightarrow>
             (\<exists>cr. map_of (requests d1) rid = Some cr \<and> student cr' = student cr \<and>
                   class_id cr' = class_id cr)"
      "filter (refused_in d') ps = spec_refused (capacityOf d1) (studentsOf d1) ps"
      using Cons.IH [OF dist rest1 refs1, of "a + 1" f fs] by blast
    have rq': "map_of (requests d') rid = Some cr1"
      using ih(7) fresh r1 by (simp add: update_conv')
    have app: "approved_in d' p"
      using rq' cr1 membership_grows [OF ih(5) m1] by (simp add: approved_in_def p)
    have nref: "\<not> refused_in d' p"
      using rq' cr1 pend by (auto simp: refused_in_def p)
    have keys: "map fst (requests d1) = map fst (requests d)"
      using r1 rq0 by (simp add: update_keys map_of_eq_None_iff [symmetric] del: map_of_eq_None_iff)
    have "approveLoop e rq (p # ps) a f fs d =
            (Some (a + length (filter (approved_in d') (p # ps)),
                   f + length (filter (refused_in d') (p # ps)), fs @ gs), d')"
      using one ih(1) app nref by (simp add: p)
    moreover have "length gs = length (filter (refused_in d') (p # ps))"
      using ih(2) nref by simp
    moreover have "\<forall>q \<in> set (p # ps). approved_in d' q \<noteq> refused_in d' q"
      using ih(4) app nref by simp
    moreover have "grows d d'" using g1 ih(5) by (rule grows_trans)
    moreover have "map fst (requests d') = map fst (requests d)" using ih(6) keys by simp
    moreover have "\<forall>r. r \<notin> fst ` set (p # ps) \<longrightarrow> map_of (requests d') r = map_of (requests d) r"
      using ih(7) r1 by (auto simp: p update_conv')
    moreover have "\<forall>r x. map_of (requests d') r = Some x \<longrightarrow>
             (\<exists>y. map_of (requests d) r = Some y \<and> student x = student y \<and>
                   class_id x = class_id y)"
    proof (intro allI impI)
      fix r x
      assume "map_of (requests d') r = Some x"
      then obtain y where y: "map_of (requests d1) r = Some y" "student x = student y"
        "class_id x = class_id y"
        using ih(8) by blast
      show "\<exists>y. map_of (requests d) r = Some y \<and> student x = student y \<and> class_id x = class_id y"
      proof (cases "r = rid")
        case True
        then have "y = cr1" using y(1) r1 by (simp add: update_conv')
        then show ?thesis using True rq0 y cr1 by simp
      next
        case False
        then have "map_of (requests d) r = Some y" using y(1) r1 by (simp add: update_conv')
        then show ?thesis using y by blast
      qed
    qed
    moreover have "filter (refused_in d') (p # ps) =
        spec_refused (capacityOf d) (studentsOf d) (p # ps)"
    proof -
      have cap1: "capacityOf d1 = capacityOf d"
        using c c1(1,2) by (auto simp: capacityOf_def fun_eq_iff)
      have so1: "studentsOf d1 =
          (if student cr \<in> set (studentList c) then studentsOf d
           else (studentsOf d)(class_id cr := studentList c @ [student cr]))"
        using c c1(1,3) by (auto simp: studentsOf_def fun_eq_iff)
      have here: "studentsOf d (class_id cr) = studentList c" "capacityOf d (class_id cr) = capacity c"
        using c by (simp_all add: studentsOf_def capacityOf_def)
      show ?thesis
      proof (cases "student cr \<in> set (studentList c)")
        case True
        then show ?thesis using ih(9) nref cap1 so1 here by (simp add: p)
      next
        case False
        then have "int (length (studentList c)) < capacity c" using room by simp
        then show ?thesis using False ih(9) nref cap1 so1 here by (simp add: p)
      qed
    qed
    ultimately show ?thesis using ih(3) by blast
  qed
qed


lemma exactly_one_length:
  "\<forall>p \<in> set ps. A p \<noteq> R p \<Longrightarrow> length (filter A ps) + length (filter R ps) = length ps"
  by (induction ps) auto

lemma pendingRequests_entries:
  assumes "distinct (map fst (requests d))"
  shows "distinct (map fst (pendingRequests d)) \<and>
         (\<forall>(rid, cr) \<in> set (pendingRequests d). map_of (requests d) rid = Some cr \<and> status cr = Pending)"
  using assms by (auto simp: pendingRequests_def distinct_map_filter)


text \<open>
  C3, as the code has it. Let the request pass validation, let the request ids be unique,
  and let every Pending request name a student and a class that exist. Let \<open>N\<close> be the
  number of Pending requests at call time (not 0) and \<open>M\<close> the number of them that exceed
  the remaining capacity in the specification's sense (\<open>spec_refused\<close>). Then
  \<open>approveAllPendingRequests\<close> succeeds with \<open>failedCount = M\<close> and
  \<open>approvedCount = N - M\<close>. The requests refused are exactly those of \<open>spec_refused\<close>:
  in the final store they are Pending as they were, their class full and the student not in
  it; the other requests of the snapshot are Approved with their membership in the final
  store (no approval is undone), and a store that respected the capacities still does. The
  failure list is absent when \<open>failedCount\<close> is 0 and otherwise has \<open>failedCount\<close>
  entries, each with the reason 'Class is at full capacity'.
\<close>

theorem approveAll_counts:
  assumes "validationErrors rq = []"
    and "distinct (map fst (requests d))"
    and "pendingRequests d \<noteq> []"
    and "references_exist d (pendingRequests d)"
  shows "\<exists>res d'. approveAllPendingRequests e rq d = (Inr res, d') \<and>
     failedCount res =
       length (spec_refused (capacityOf d) (studentsOf d) (pendingRequests d)) \<and>
     approvedCount res =
       length (pendingRequests d) -
       length (spec_refused (capacityOf d) (studentsOf d) (pendingRequests d)) \<and>
     filter (refused_in d') (pendingRequests d) =
       spec_refused (capacityOf d) (studentsOf d) (pendingRequests d) \<and>
     approvedCount res = length (filter (approved_in d') (pendingRequests d)) \<and>
     failedCount res = length (filter (refused_in d') (pendingRequests d)) \<and>
     approvedCount res + failedCount res = length (pendingRequests d) \<and>
     (capacity_ok d \<longrightarrow> capacity_ok d') \<and>
     (failedCount res = 0 \<longrightarrow> failedRequests res = None) \<and>
     (0 < failedCount res \<longrightarrow>
        (\<exists>gs. failedRequests res = Some gs \<and> length gs = failedCount res \<and>
              list_all (\<lambda>g. failReason g = ''Class is at full capacity'') gs))"
proof -
  let ?ps = "pendingRequests d"
  note pe = pendingRequests_entries [OF assms(2)]
  obtain gs d' where l:
    "approveLoop e rq ?ps 0 0 [] d =
       (Some (0 + length (filter (approved_in d') ?ps),
              0 + length (filter (refused_in d') ?ps), [] @ gs), d')"
    "length gs = length (filter (refused_in d') ?ps)"
    "list_all (\<lambda>g. failReason g = ''Class is at full capacity'') gs"
    "\<forall>p \<in> set ?ps. approved_in d' p \<noteq> refused_in d' p"
    "filter (refused_in d') ?ps = spec_refused (capacityOf d) (studentsOf d) ?ps"
    using approveLoop_correct [of ?ps d e rq 0 0 "[]"] pe assms(4) by blast
  define res where "res = \<lparr>approvedCount = length (filter (approved_in d') ?ps),
      failedCount = length (filter (refused_in d') ?ps),
      failedRequests = (if length (filter (refused_in d') ?ps) > 0 then Some gs else None)\<rparr>"
  have r: "approveAllPendingRequests e rq d = (Inr res, d')"
    using assms(1,3) l(1) by (simp add: approveAllPendingRequests_def res_def)
  have sum: "approvedCount res + failedCount res = length ?ps"
    using exactly_one_length [OF l(4)] by (simp add: res_def)
  have m: "failedCount res = length (spec_refused (capacityOf d) (studentsOf d) ?ps)"
    using l(5) by (simp add: res_def)
  have nm: "approvedCount res =
      length ?ps - length (spec_refused (capacityOf d) (studentsOf d) ?ps)"
    using sum m by linarith
  have cap: "capacity_ok d \<longrightarrow> capacity_ok d'"
    using writes_capacity_ok [OF approveAll_writes [of d e rq]] r by simp
  have rest: "approvedCount res = length (filter (approved_in d') ?ps) \<and>
     failedCount res = length (filter (refused_in d') ?ps) \<and>
     (failedCount res = 0 \<longrightarrow> failedRequests res = None) \<and>
     (0 < failedCount res \<longrightarrow>
        (\<exists>gs. failedRequests res = Some gs \<and> length gs = failedCount res \<and>
              list_all (\<lambda>g. failReason g = ''Class is at full capacity'') gs))"
    using l(2,3) by (simp add: res_def)
  show ?thesis
    using r m nm l(5) sum cap rest by (intro exI [of _ res] exI [of _ d']) blast
qed

theorem approveAll_counts_witness:
  "validationErrors (admin_req 0 Approved) = [] \<and>
   distinct (map fst (requests store0)) \<and>
   pendingRequests store0 = [(2, request_of 10 20 Pending), (3, request_of 11 20 Pending)] \<and>
   references_exist store0 (pendingRequests store0) \<and>
   capacity_ok store0 \<and>
   spec_refused (capacityOf store0) (studentsOf store0) (pendingRequests store0) =
     [(3, request_of 11 20 Pending)] \<and>
   (\<exists>res d'. approveAllPendingRequests sink_down (admin_req 0 Approved) store0 = (Inr res, d') \<and>
      approvedCount res = 1 \<and> failedCount res = 1 \<and>
      approved_in d' (2, request_of 10 20 Pending) \<and> refused_in d' (3, request_of 11 20 Pending) \<and>
      capacity_ok d' \<and>
      (\<exists>gs. failedRequests res = Some gs \<and> length gs = 1 \<and>
            list_all (\<lambda>g. failReason g = ''Class is at full capacity'') gs))"
proof -
  have v: "validationErrors (admin_req 0 Approved) = []" by (simp add: admin_req_def)
  have di: "distinct (map fst (requests store0))" by (simp add: store0_def)
  have ps: "pendingRequests store0 = [(2, request_of 10 20 Pending), (3, request_of 11 20 Pending)]"
    by (simp add: pendingRequests_def store0_def request_of_def)
  have ne: "pendingRequests store0 \<noteq> []" using ps by simp
  have re: "references_exist store0 (pendingRequests store0)"
    unfolding ps by (simp add: references_exist_def store0_def request_of_def)
  have ok: "capacity_ok store0"
    by (simp add: capacity_ok_def example_defs studentList_def)
  have sp': "spec_refused (capacityOf store0) (studentsOf store0)
      [(2, request_of 10 20 Pending), (3, request_of 11 20 Pending)] =
      [(3, request_of 11 20 Pending)]"
    by (simp add: capacityOf_def studentsOf_def studentList_def example_defs)
  have sp: "spec_refused (capacityOf store0) (studentsOf store0) (pendingRequests store0) =
      [(3, request_of 11 20 Pending)]"
    unfolding ps by (rule sp')
  obtain res d' where r:
    "approveAllPendingRequests sink_down (admin_req 0 Approved) store0 = (Inr res, d')"
    "failedCount res =
       length (spec_refused (capacityOf store0) (studentsOf store0) (pendingRequests store0))"
    "approvedCount res =
       length (pendingRequests store0) -
       length (spec_refused (capacityOf store0) (studentsOf store0) (pendingRequests store0))"
    "filter (refused_in d') (pendingRequests store0) =
       spec_refused (capacityOf store0) (studentsOf store0) (pendingRequests store0)"
    "approvedCount res = length (filter (approved_in d') (pendingRequests store0))"
    "capacity_ok store0 \<longrightarrow> capacity_ok d'"
    "0 < failedCount res \<longrightarrow>
        (\<exists>gs. failedRequests res = Some gs \<and> length gs = failedCount res \<and>
              list_all (\<lambda>g. failReason g = ''Class is at full capacity'') gs)"
    using approveAll_counts [OF v di ne re, of sink_down] by (elim exE conjE) (rule that)
  have "failedCount res = length [(3::oid, request_of 11 20 Pending)]"
    using r(2) by (simp only: sp)
  then have f1: "failedCount res = 1" by simp
  have "approvedCount res =
      length (pendingRequests store0) - length [(3::oid, request_of 11 20 Pending)]"
    using r(3) by (simp only: sp)
  then have a1: "approvedCount res = 1" by (simp add: ps)
  have "approved_in (snd (approveAllPendingRequests sink_down (admin_req 0 Approved) store0))
      (2, request_of 10 20 Pending)"
    "refused_in (snd (approveAllPendingRequests sink_down (admin_req 0 Approved) store0))
      (3, request_of 11 20 Pending)"
    by code_simp+
  then have a2: "approved_in d' (2, request_of 10 20 Pending)"
    and r3: "refused_in d' (3, request_of 11 20 Pending)"
    using r(1) by simp_all
  have c': "capacity_ok d'" using r(6) ok by simp
  obtain gs where gs: "failedRequests res = Some gs" "length gs = 1"
    "list_all (\<lambda>g. failReason g = ''Class is at full capacity'') gs"
    using r(7) f1 by auto
  show ?thesis
    using v di ps re ok sp r(1) a1 f1 a2 r3 c' gs by blast
qed

text \<open>
  C3 as stated fails where it says that the response always carries the failure list: with
  room for both pending requests of \<open>store_two\<close>, both are approved and the
  \<open>failedRequests\<close> field is absent (line 580).
\<close>

theorem approveAll_failure_list_absent:
  "fst (approveAllPendingRequests sink_up (admin_req 0 Approved) store_two) =
     Inr \<lparr>approvedCount = 2, failedCount = 0, failedRequests = None\<rparr>"
  by code_simp


text \<open>
  A pending request whose class is gone makes the round's own \<open>catch\<close> block raise,
  which ends the loop with a 500; the approval made before it stays.
\<close>

lemma approveAll_dangling_reference_aborts:
  "fst (approveAllPendingRequests sink_up (admin_req 0 Approved) store_dangling) = Inl ServerError \<and>
   map_option status
     (map_of (requests (snd (approveAllPendingRequests sink_up (admin_req 0 Approved) store_dangling))) 2) =
     Some Approved"
  by code_simp

subsection \<open>The relationship between request status and membership\<close>

lemma good_iff:
  "good d \<longleftrightarrow>
     distinct (map fst (requests d)) \<and> references_exist d (requests d) \<and> relationship_ok d"
proof (cases "distinct (map fst (requests d))")
  case False
  then show ?thesis by (simp add: good_def)
next
  case True
  note in_iff = map_of_eq_Some_iff [OF True]
  have e: "references_exist d (requests d) \<longleftrightarrow>
      (\<forall>rid cr. map_of (requests d) rid = Some cr \<longrightarrow>
        map_of (students d) (student cr) \<noteq> None \<and> map_of (classes d) (class_id cr) \<noteq> None)"
    unfolding references_exist_def list_all_iff in_iff by fast
  have i: "relationship_ok d \<longleftrightarrow>
      (\<forall>rid cr. map_of (requests d) rid = Some cr \<longrightarrow> status cr = Approved \<longrightarrow> membership d cr)"
    unfolding relationship_ok_def list_all_iff in_iff by fast
  show ?thesis
    unfolding good_def e i using True by blast
qed

lemma relationship_ok_iff:
  assumes "distinct (map fst (requests d))"
  shows "relationship_ok d \<longleftrightarrow>
      (\<forall>rid cr. map_of (requests d) rid = Some cr \<longrightarrow> status cr = Approved \<longrightarrow> membership d cr)"
  unfolding relationship_ok_def list_all_iff map_of_eq_Some_iff [OF assms] by fast

lemma other_approved_iff:
  assumes "distinct (map fst (requests d))"
  shows "other_approved d rid cr \<longleftrightarrow>
      (\<exists>r x. map_of (requests d) r = Some x \<and> r \<noteq> rid \<and> status x = Approved \<and>
             student x = student cr \<and> class_id x = class_id cr)"
  unfolding other_approved_def list_ex_iff map_of_eq_Some_iff [OF assms] by fast

lemma good_cong:
  assumes "requests d' = requests d" and "map_of (classes d') = map_of (classes d)"
    and "map_of (students d') = map_of (students d)" and "good d"
  shows "good d'"
  using assms by (simp add: good_def membership_def studentsOf_def classesOf_def)

lemma membership_other_pair:
  assumes "map_of (classes d) cid = Some c" and "map_of (students d) sid = Some s"
    and "map_of (classes d') = (map_of (classes d))(cid \<mapsto> c')"
    and "set (studentList c) - {sid} \<subseteq> set (studentList c')"
    and "map_of (students d') = (map_of (students d))(sid \<mapsto> s')"
    and "set (classList s) - {cid} \<subseteq> set (classList s')"
    and "membership d x" and "\<not> (student x = sid \<and> class_id x = cid)"
  shows "membership d' x"
proof -
  have a: "student x \<in> set (studentsOf d' (class_id x))"
  proof (cases "class_id x = cid")
    case True
    then have "student x \<in> set (studentList c)" "student x \<noteq> sid"
      using assms(1,7,8) by (auto simp: membership_def studentsOf_def)
    then show ?thesis using assms(3,4) True by (auto simp: studentsOf_def)
  next
    case False
    then show ?thesis using assms(3,7) by (simp add: membership_def studentsOf_def)
  qed
  have b: "class_id x \<in> set (classesOf d' (student x))"
  proof (cases "student x = sid")
    case True
    then have "class_id x \<in> set (classList s)" "class_id x \<noteq> cid"
      using assms(2,7,8) by (auto simp: membership_def classesOf_def)
    then show ?thesis using assms(5,6) True by (auto simp: classesOf_def)
  next
    case False
    then show ?thesis using assms(5,7) by (simp add: membership_def classesOf_def)
  qed
  show ?thesis using a b by (simp add: membership_def)
qed

lemma membership_same_pair:
  assumes "map_of (classes d) cid = Some c" and "map_of (students d) sid = Some s"
    and "map_of (classes d') = (map_of (classes d))(cid \<mapsto> c')"
    and "set (studentList c) \<subseteq> set (studentList c')"
    and "map_of (students d') = (map_of (students d))(sid \<mapsto> s')"
    and "set (classList s) \<subseteq> set (classList s')"
    and "membership d x"
  shows "membership d' x"
proof -
  have a: "student x \<in> set (studentsOf d' (class_id x))"
  proof (cases "class_id x = cid")
    case True
    then have "student x \<in> set (studentList c)"
      using assms(1,7) by (auto simp: membership_def studentsOf_def)
    then show ?thesis using assms(3,4) True by (auto simp: studentsOf_def)
  next
    case False
    then show ?thesis using assms(3,7) by (simp add: membership_def studentsOf_def)
  qed
  have b: "class_id x \<in> set (classesOf d' (student x))"
  proof (cases "student x = sid")
    case True
    then have "class_id x \<in> set (classList s)"
      using assms(2,7) by (auto simp: membership_def classesOf_def)
    then show ?thesis using assms(5,6) True by (auto simp: classesOf_def)
  next
    case False
    then show ?thesis using assms(5,7) by (simp add: membership_def classesOf_def)
  qed
  show ?thesis using a b by (simp add: membership_def)
qed

lemma single_request_step:
  assumes g: "good d"
    and t: "map_of (requests d) rid = Some cr" "map_of (classes d) (class_id cr) = Some c"
      "map_of (students d) (student cr) = Some s"
    and cl: "map_of (classes d') = (map_of (classes d))(class_id cr \<mapsto> c')"
      "set (studentList c) - {student cr} \<subseteq> set (studentList c')"
    and st: "map_of (students d') = (map_of (students d))(student cr \<mapsto> s')"
      "set (classList s) - {class_id cr} \<subseteq> set (classList s')"
    and rq: "(requests d' = AList.update rid cr' (requests d) \<and> student cr' = student cr \<and>
              class_id cr' = class_id cr \<and>
              (status cr' = Approved \<longrightarrow>
                 student cr \<in> set (studentList c') \<and> class_id cr \<in> set (classList s'))) \<or>
             requests d' = AList.delete rid (requests d)"
    and k: "\<not> other_approved d rid cr \<or>
            (set (studentList c) \<subseteq> set (studentList c') \<and> set (classList s) \<subseteq> set (classList s'))"
  shows "good d'"
proof -
  have keys: "distinct (map fst (requests d'))"
    using g rq by (auto simp: good_def distinct_update distinct_delete)
  have origin: "\<exists>x. map_of (requests d) r = Some x \<and> student x' = student x \<and>
      class_id x' = class_id x \<and> (r \<noteq> rid \<longrightarrow> x' = x)"
    if "map_of (requests d') r = Some x'" for r x'
    using that rq t(1) by (auto simp: update_conv' delete_conv' split: if_splits)
  have target: "membership d' x'" if "map_of (requests d') rid = Some x'" "status x' = Approved" for x'
  proof -
    have "x' = cr'" "student cr' = student cr" "class_id cr' = class_id cr"
      "student cr \<in> set (studentList c')" "class_id cr \<in> set (classList s')"
      using that rq by (auto simp: update_conv' delete_conv')
    then show ?thesis using cl(1) st(1) by (simp add: membership_def studentsOf_def classesOf_def)
  qed
  have refs: "map_of (students d') (student x) \<noteq> None \<and> map_of (classes d') (class_id x) \<noteq> None"
    if hr: "map_of (requests d') r = Some x" for r x
  proof -
    obtain y where "map_of (requests d) r = Some y" "student x = student y" "class_id x = class_id y"
      using origin [OF hr] by blast
    then have "map_of (students d) (student x) \<noteq> None \<and> map_of (classes d) (class_id x) \<noteq> None"
      using g unfolding good_def by metis
    then show ?thesis using cl(1) st(1) by simp
  qed
  have inv: "membership d' x" if h: "map_of (requests d') r = Some x" "status x = Approved" for r x
  proof (cases "r = rid")
    case True
    then show ?thesis using target h by simp
  next
    case False
    then have x: "map_of (requests d) r = Some x" using origin [OF h(1)] by auto
    then have m: "membership d x" using g h(2) unfolding good_def by blast
    show ?thesis
    proof (cases "student x = student cr \<and> class_id x = class_id cr")
      case False
      then show ?thesis
        using membership_other_pair [OF t(2) t(3) cl(1) cl(2) st(1) st(2) m] by simp
    next
      case True
      from k show ?thesis
      proof
        assume "\<not> other_approved d rid cr"
        moreover have "distinct (map fst (requests d))" using g by (simp add: good_def)
        ultimately have "r = rid"
          using x h(2) True by (auto simp: other_approved_iff)
        then show ?thesis using False by simp
      next
        assume "set (studentList c) \<subseteq> set (studentList c') \<and> set (classList s) \<subseteq> set (classList s')"
        then show ?thesis
          using membership_same_pair [OF t(2) t(3) cl(1) _ st(1) _ m] by simp
      qed
    qed
  qed
  show ?thesis
    unfolding good_def using keys refs inv by blast
qed

lemma removeMembership_maps:
  assumes "map_of (classes d) (class_id cr) = Some c"
    and "map_of (students d) (student cr) = Some s"
  shows "\<exists>c' s'. requests (removeMembership cr (Some s) (Some c) d) = requests d \<and>
     map_of (classes (removeMembership cr (Some s) (Some c) d)) =
       (map_of (classes d))(class_id cr \<mapsto> c') \<and>
     studentList c' = filter (\<lambda>i. i \<noteq> student cr) (studentList c) \<and>
     map_of (students (removeMembership cr (Some s) (Some c) d)) =
       (map_of (students d))(student cr \<mapsto> s') \<and>
     classList s' = filter (\<lambda>i. i \<noteq> class_id cr) (classList s)"
proof -
  have 1: "\<exists>d1 c'. removeStudentFromClass cr (Some s) (Some c) d = Some d1 \<and>
      requests d1 = requests d \<and> students d1 = students d \<and>
      map_of (classes d1) = (map_of (classes d))(class_id cr \<mapsto> c') \<and>
      studentList c' = filter (\<lambda>i. i \<noteq> student cr) (studentList c)"
  proof (cases "enrolledStudents c")
    case None
    then have "removeStudentFromClass cr (Some s) (Some c) d = Some d" "studentList c = []"
      by (simp_all add: removeStudentFromClass_def studentList_def)
    then show ?thesis using assms(1) by (intro exI [of _ d] exI [of _ c]) (simp add: map_upd_triv)
  next
    case (Some xs)
    show ?thesis
    proof (cases "filter (\<lambda>i. i \<noteq> student cr) xs = xs")
      case True
      then have "removeStudentFromClass cr (Some s) (Some c) d = Some d"
        "studentList c = filter (\<lambda>i. i \<noteq> student cr) (studentList c)"
        using Some by (simp_all add: removeStudentFromClass_def populated_id_def filter_out_Some
            studentList_def)
      then show ?thesis using assms(1)
        by (intro exI [of _ d] exI [of _ c]) (simp add: map_upd_triv)
    next
      case False
      then have "length xs \<noteq> length (filter (\<lambda>i. i \<noteq> student cr) xs)"
        using filter_same_length [of "\<lambda>i. i \<noteq> student cr" xs] by auto
      then have "removeStudentFromClass cr (Some s) (Some c) d =
          Some (save_class (class_id cr)
                  (c\<lparr>enrolledStudents := Some (filter (\<lambda>i. i \<noteq> student cr) xs)\<rparr>) d)"
        using Some by (simp add: removeStudentFromClass_def populated_id_def filter_out_Some)
      then show ?thesis using Some
        by (intro exI [of _ "save_class (class_id cr)
                  (c\<lparr>enrolledStudents := Some (filter (\<lambda>i. i \<noteq> student cr) xs)\<rparr>) d"]
            exI [of _ "c\<lparr>enrolledStudents := Some (filter (\<lambda>i. i \<noteq> student cr) xs)\<rparr>"])
          (simp add: update_conv' studentList_def)
    qed
  qed
  have 2: "\<exists>d2 s'. removeClassFromStudent cr (Some s) (Some c) d1 = Some d2 \<and>
      requests d2 = requests d1 \<and> classes d2 = classes d1 \<and>
      map_of (students d2) = (map_of (students d1))(student cr \<mapsto> s') \<and>
      classList s' = filter (\<lambda>i. i \<noteq> class_id cr) (classList s)"
    if s1: "map_of (students d1) (student cr) = Some s" for d1
  proof (cases "enrolledClasses s")
    case None
    then have "removeClassFromStudent cr (Some s) (Some c) d1 = Some d1" "classList s = []"
      by (simp_all add: removeClassFromStudent_def classList_def)
    then show ?thesis using s1 by (intro exI [of _ d1] exI [of _ s]) (simp add: map_upd_triv)
  next
    case (Some ys)
    show ?thesis
    proof (cases "filter (\<lambda>i. i \<noteq> class_id cr) ys = ys")
      case True
      then have "removeClassFromStudent cr (Some s) (Some c) d1 = Some d1"
        "classList s = filter (\<lambda>i. i \<noteq> class_id cr) (classList s)"
        using Some by (simp_all add: removeClassFromStudent_def populated_id_def filter_out_Some
            classList_def)
      then show ?thesis using s1
        by (intro exI [of _ d1] exI [of _ s]) (simp add: map_upd_triv)
    next
      case False
      then have "length ys \<noteq> length (filter (\<lambda>i. i \<noteq> class_id cr) ys)"
        using filter_same_length [of "\<lambda>i. i \<noteq> class_id cr" ys] by auto
      then have "removeClassFromStudent cr (Some s) (Some c) d1 =
          Some (save_student (student cr)
                  (s\<lparr>enrolledClasses := Some (filter (\<lambda>i. i \<noteq> class_id cr) ys)\<rparr>) d1)"
        using Some by (simp add: removeClassFromStudent_def populated_id_def filter_out_Some)
      then show ?thesis using Some
        by (intro exI [of _ "save_student (student cr)
                  (s\<lparr>enrolledClasses := Some (filter (\<lambda>i. i \<noteq> class_id cr) ys)\<rparr>) d1"]
            exI [of _ "s\<lparr>enrolledClasses := Some (filter (\<lambda>i. i \<noteq> class_id cr) ys)\<rparr>"])
          (simp add: update_conv' classList_def)
    qed
  qed
  obtain d1 c' where d1: "removeStudentFromClass cr (Some s) (Some c) d = Some d1"
    "requests d1 = requests d" "students d1 = students d"
    "map_of (classes d1) = (map_of (classes d))(class_id cr \<mapsto> c')"
    "studentList c' = filter (\<lambda>i. i \<noteq> student cr) (studentList c)"
    using 1 by blast
  have "map_of (students d1) (student cr) = Some s" using assms(2) d1(3) by simp
  then obtain d2 s' where d2: "removeClassFromStudent cr (Some s) (Some c) d1 = Some d2"
    "requests d2 = requests d1" "classes d2 = classes d1"
    "map_of (students d2) = (map_of (students d1))(student cr \<mapsto> s')"
    "classList s' = filter (\<lambda>i. i \<noteq> class_id cr) (classList s)"
    using 2 by blast
  have "removeMembership cr (Some s) (Some c) d = d2"
    by (simp add: removeMembership_def d1(1) d2(1))
  then show ?thesis using d1 d2 by auto
qed

lemma adminRemoveMembership_maps:
  assumes "map_of (classes d) (class_id cr) = Some c"
    and "map_of (students d) (student cr) = Some s"
  shows "\<exists>c' s'. requests (adminRemoveMembership cr (Some s) (Some c) d) = requests d \<and>
     map_of (classes (adminRemoveMembership cr (Some s) (Some c) d)) =
       (map_of (classes d))(class_id cr \<mapsto> c') \<and>
     studentList c' = filter (\<lambda>i. i \<noteq> student cr) (studentList c) \<and>
     map_of (students (adminRemoveMembership cr (Some s) (Some c) d)) =
       (map_of (students d))(student cr \<mapsto> s') \<and>
     classList s' = filter (\<lambda>i. i \<noteq> class_id cr) (classList s)"
proof -
  have 1: "\<exists>d1 c'. adminRemoveStudent cr (Some s) (Some c) d = Some d1 \<and>
      requests d1 = requests d \<and> students d1 = students d \<and>
      map_of (classes d1) = (map_of (classes d))(class_id cr \<mapsto> c') \<and>
      studentList c' = filter (\<lambda>i. i \<noteq> student cr) (studentList c)"
  proof (cases "enrolledStudents c")
    case None
    then have "adminRemoveStudent cr (Some s) (Some c) d = Some d" "studentList c = []"
      using assms(1) by (simp_all add: adminRemoveStudent_def populated_id_def studentList_def)
    then show ?thesis using assms(1) by (intro exI [of _ d] exI [of _ c]) (simp add: map_upd_triv)
  next
    case (Some xs)
    then have "adminRemoveStudent cr (Some s) (Some c) d =
        Some (save_class (class_id cr)
                (c\<lparr>enrolledStudents := Some (filter (\<lambda>i. i \<noteq> student cr) xs)\<rparr>) d)"
      using assms(1) by (simp add: adminRemoveStudent_def populated_id_def filter_out_Some)
    then show ?thesis using Some
      by (intro exI [of _ "save_class (class_id cr)
                (c\<lparr>enrolledStudents := Some (filter (\<lambda>i. i \<noteq> student cr) xs)\<rparr>) d"]
          exI [of _ "c\<lparr>enrolledStudents := Some (filter (\<lambda>i. i \<noteq> student cr) xs)\<rparr>"])
        (simp add: update_conv' studentList_def)
  qed
  have 2: "\<exists>d2 s'. adminRemoveClass cr (Some s) (Some c) d1 = Some d2 \<and>
      requests d2 = requests d1 \<and> classes d2 = classes d1 \<and>
      map_of (students d2) = (map_of (students d1))(student cr \<mapsto> s') \<and>
      classList s' = filter (\<lambda>i. i \<noteq> class_id cr) (classList s)"
    if s1: "map_of (students d1) (student cr) = Some s" for d1
  proof (cases "enrolledClasses s")
    case None
    then have "adminRemoveClass cr (Some s) (Some c) d1 = Some d1" "classList s = []"
      using s1 by (simp_all add: adminRemoveClass_def populated_id_def classList_def)
    then show ?thesis using s1 by (intro exI [of _ d1] exI [of _ s]) (simp add: map_upd_triv)
  next
    case (Some ys)
    then have "adminRemoveClass cr (Some s) (Some c) d1 =
        Some (save_student (student cr)
                (s\<lparr>enrolledClasses := Some (filter (\<lambda>i. i \<noteq> class_id cr) ys)\<rparr>) d1)"
      using s1 by (simp add: adminRemoveClass_def populated_id_def filter_out_Some)
    then show ?thesis using Some
      by (intro exI [of _ "save_student (student cr)
                (s\<lparr>enrolledClasses := Some (filter (\<lambda>i. i \<noteq> class_id cr) ys)\<rparr>) d1"]
          exI [of _ "s\<lparr>enrolledClasses := Some (filter (\<lambda>i. i \<noteq> class_id cr) ys)\<rparr>"])
        (simp add: update_conv' classList_def)
  qed
  obtain d1 c' where d1: "adminRemoveStudent cr (Some s) (Some c) d = Some d1"
    "requests d1 = requests d" "students d1 = students d"
    "map_of (classes d1) = (map_of (classes d))(class_id cr \<mapsto> c')"
    "studentList c' = filter (\<lambda>i. i \<noteq> student cr) (studentList c)"
    using 1 by blast
  have "map_of (students d1) (student cr) = Some s" using assms(2) d1(3) by simp
  then obtain d2 s' where d2: "adminRemoveClass cr (Some s) (Some c) d1 = Some d2"
    "requests d2 = requests d1" "classes d2 = classes d1"
    "map_of (students d2) = (map_of (students d1))(student cr \<mapsto> s')"
    "classList s' = filter (\<lambda>i. i \<noteq> class_id cr) (classList s)"
    using 2 by blast
  have "adminRemoveMembership cr (Some s) (Some c) d = d2"
    by (simp add: adminRemoveMembership_def d1(1) d2(1))
  then show ?thesis using d1 d2 by auto
qed

lemma good_refs:
  assumes "good d" and "map_of (requests d) rid = Some cr"
  obtains c s where "map_of (classes d) (class_id cr) = Some c"
    and "map_of (students d) (student cr) = Some s"
  using assms unfolding good_def by fastforce

lemma good_member:
  assumes "good d" and "map_of (requests d) rid = Some cr" and "status cr = Approved"
    and "map_of (classes d) (class_id cr) = Some c" and "map_of (students d) (student cr) = Some s"
  shows "student cr \<in> set (studentList c) \<and> class_id cr \<in> set (classList s)"
proof -
  have "membership d cr" using assms(1,2,3) unfolding good_def by blast
  then show ?thesis using assms(4,5) by (simp add: membership_def studentsOf_def classesOf_def)
qed

lemma approve_done:
  assumes "validationErrors rq = []" and "map_of (requests d) (requestId rq) = Some cr"
    and "status cr = Pending"
    and "map_of (classes d) (class_id cr) = Some c"
    and "map_of (students d) (student cr) = Some s"
    and "student cr \<in> set (studentList c) \<or> int (length (studentList c)) < capacity c"
  shows "\<exists>d1 c' s' cr'. approveClassRequest e rq d = (Inr cr', d1) \<and>
     status cr' = Approved \<and> student cr' = student cr \<and> class_id cr' = class_id cr \<and>
     requests d1 = AList.update (requestId rq) cr' (requests d) \<and>
     map_of (classes d1) = (map_of (classes d))(class_id cr \<mapsto> c') \<and>
     studentList c' = (if student cr \<in> set (studentList c) then studentList c
                       else studentList c @ [student cr]) \<and>
     map_of (students d1) = (map_of (students d))(student cr \<mapsto> s') \<and>
     classList s' = (if class_id cr \<in> set (classList s) then classList s
                     else classList s @ [class_id cr])"
proof -
  define cr' where "cr' = cr\<lparr>status := Approved,
      adminResponse := Some \<lparr>actionBy = user_id rq, actionDate = now e,
        actionNote = noteOr (adminNote rq) ''Request approved''\<rparr>\<rparr>"
  let ?d0 = "save_request (requestId rq) cr' d"
  have cr': "status cr' = Approved" "student cr' = student cr" "class_id cr' = class_id cr"
    by (simp_all add: cr'_def)
  obtain d' c' s' where m: "enroll cr' (Some s) c ?d0 = Some d'" "requests d' = requests ?d0"
    "map_of (classes d') = (map_of (classes ?d0))(class_id cr' \<mapsto> c')"
    "studentList c' = (if student cr' \<in> set (studentList c) then studentList c
                       else studentList c @ [student cr'])"
    "map_of (students d') = (map_of (students ?d0))(student cr' \<mapsto> s')"
    "classList s' = (if class_id cr' \<in> set (classList s) then classList s
                     else classList s @ [class_id cr'])"
    using enroll_maps [of ?d0 cr' c s] assms(4,5) cr' by auto
  have full: "capacityFull c (populated_id (student cr) (Some s)) = Some False"
    using assms(6) by (auto simp: capacityFull_Some populated_id_def)
  obtain d1 where d1: "approveClassRequest e rq d = (Inr cr', d1)"
    "requests d1 = requests d'" "classes d1 = classes d'" "students d1 = students d'"
    using assms(1-5) full m(1) by (simp add: approveClassRequest_def Let_def cr'_def)
  have r: "requests d1 = AList.update (requestId rq) cr' (requests d)" using d1(2) m(2) by simp
  have c: "map_of (classes d1) = (map_of (classes d))(class_id cr \<mapsto> c')"
    using d1(3) m(3) cr' by simp
  have st: "map_of (students d1) = (map_of (students d))(student cr \<mapsto> s')"
    using d1(4) m(5) cr' by simp
  have m4: "studentList c' = (if student cr \<in> set (studentList c) then studentList c
                       else studentList c @ [student cr])"
    using m(4) cr' by simp
  have m6: "classList s' = (if class_id cr \<in> set (classList s) then classList s
                     else classList s @ [class_id cr])"
    using m(6) cr' by simp
  show ?thesis
    using d1(1) cr' r c m4 st m6 by blast
qed

lemma approve_good:
  assumes g: "good d"
  shows "good (snd (approveClassRequest e rq d))"
proof (cases "validationErrors rq = [] \<and> (\<exists>cr. map_of (requests d) (requestId rq) = Some cr \<and>
    status cr = Pending)")
  case False
  then have "snd (approveClassRequest e rq d) = d"
    by (auto simp: approveClassRequest_def split: option.splits)
  then show ?thesis using g by simp
next
  case True
  then obtain cr where cr: "validationErrors rq = []"
    "map_of (requests d) (requestId rq) = Some cr" "status cr = Pending"
    by blast
  obtain c s where c: "map_of (classes d) (class_id cr) = Some c"
    and s: "map_of (students d) (student cr) = Some s"
    using good_refs [OF g cr(2)] by blast
  show ?thesis
  proof (cases "student cr \<in> set (studentList c) \<or> int (length (studentList c)) < capacity c")
    case True
    obtain d1 c' s' cr' where a: "approveClassRequest e rq d = (Inr cr', d1)"
      "status cr' = Approved" "student cr' = student cr" "class_id cr' = class_id cr"
      "requests d1 = AList.update (requestId rq) cr' (requests d)"
      "map_of (classes d1) = (map_of (classes d))(class_id cr \<mapsto> c')"
      "studentList c' = (if student cr \<in> set (studentList c) then studentList c
                       else studentList c @ [student cr])"
      "map_of (students d1) = (map_of (students d))(student cr \<mapsto> s')"
      "classList s' = (if class_id cr \<in> set (classList s) then classList s
                     else classList s @ [class_id cr])"
      using approve_done [OF cr c s True, of e] by blast
    have "good d1"
      using a by (intro single_request_step [OF g cr(2) c s, of d1 c' s' cr']) auto
    then show ?thesis using a(1) by simp
  next
    case False
    then have "approveClassRequest e rq d = (Inl CapacityExceeded, d)"
      using cr s c
      by (simp add: approveClassRequest_def Let_def capacityFull_Some populated_id_def)
    then show ?thesis using g by simp
  qed
qed

lemma reject_good:
  assumes g: "good d"
  shows "good (snd (rejectClassRequest e rq d))"
proof (cases "validationErrors rq = [] \<and> (\<exists>cr. map_of (requests d) (requestId rq) = Some cr \<and>
    status cr = Pending)")
  case False
  then have "snd (rejectClassRequest e rq d) = d"
    by (auto simp: rejectClassRequest_def split: option.splits)
  then show ?thesis using g by simp
next
  case True
  then obtain cr where cr: "validationErrors rq = []"
    "map_of (requests d) (requestId rq) = Some cr" "status cr = Pending"
    by blast
  obtain c s where c: "map_of (classes d) (class_id cr) = Some c"
    and s: "map_of (students d) (student cr) = Some s"
    using good_refs [OF g cr(2)] by blast
  define cr' where "cr' = cr\<lparr>status := Rejected,
      adminResponse := Some \<lparr>actionBy = user_id rq, actionDate = now e,
        actionNote = noteOr (adminNote rq) ''Request rejected''\<rparr>\<rparr>"
  let ?d' = "snd (rejectClassRequest e rq d)"
  have r: "requests ?d' = AList.update (requestId rq) cr' (requests d)"
    "classes ?d' = classes d" "students ?d' = students d"
    using cr by (auto simp: rejectClassRequest_def Let_def cr'_def dispatch_def split: option.splits)
  show ?thesis
    using r c s
    by (intro single_request_step [OF g cr(2) c s, of ?d' c s cr'])
      (auto simp: cr'_def map_upd_triv)
qed

lemma changeStatus_away_maps:
  assumes "validationErrors rq = []" and "map_of (requests d) (requestId rq) = Some cr"
    and "status cr = Approved" and "body_status rq \<noteq> Approved"
    and c: "map_of (classes d) (class_id cr) = Some c"
    and s: "map_of (students d) (student cr) = Some s"
  shows "\<exists>c' s' cr'.
     requests (snd (changeClassRequestStatus e rq d)) =
       AList.update (requestId rq) cr' (requests d) \<and>
     status cr' = body_status rq \<and> student cr' = student cr \<and> class_id cr' = class_id cr \<and>
     map_of (classes (snd (changeClassRequestStatus e rq d))) =
       (map_of (classes d))(class_id cr \<mapsto> c') \<and>
     studentList c' = filter (\<lambda>i. i \<noteq> student cr) (studentList c) \<and>
     map_of (students (snd (changeClassRequestStatus e rq d))) =
       (map_of (students d))(student cr \<mapsto> s') \<and>
     classList s' = filter (\<lambda>i. i \<noteq> class_id cr) (classList s)"
proof -
  define cr' where "cr' = cr\<lparr>status := body_status rq,
              adminResponse := Some \<lparr>actionBy = user_id rq, actionDate = now e,
                actionNote = noteOr (adminNote rq)
                  (''Status changed from '' @ statusName (status cr) @ '' to '' @
                   statusName (body_status rq))\<rparr>\<rparr>"
  have cr': "status cr' = body_status rq" "student cr' = student cr" "class_id cr' = class_id cr"
    by (simp_all add: cr'_def)
  have upd: "requests (snd (updateStatus e rq cr (Some s) (Some c) d0)) =
      AList.update (requestId rq) cr' (requests d0)" for d0
    by (simp add: updateStatus_def Let_def cr'_def)
  let ?d' = "snd (changeClassRequestStatus e rq d)"
  let ?dm = "removeMembership cr (Some s) (Some c) d"
  obtain c' s' where m: "requests ?dm = requests d"
    "map_of (classes ?dm) = (map_of (classes d))(class_id cr \<mapsto> c')"
    "studentList c' = filter (\<lambda>i. i \<noteq> student cr) (studentList c)"
    "map_of (students ?dm) = (map_of (students d))(student cr \<mapsto> s')"
    "classList s' = filter (\<lambda>i. i \<noteq> class_id cr) (classList s)"
    using removeMembership_maps [OF c s] by blast
  have e: "?d' = snd (updateStatus e rq cr (Some s) (Some c) ?dm)"
    using assms by (simp add: changeClassRequestStatus_def Let_def)
  have "requests ?d' = AList.update (requestId rq) cr' (requests d)"
    "map_of (classes ?d') = (map_of (classes d))(class_id cr \<mapsto> c')"
    "map_of (students ?d') = (map_of (students d))(student cr \<mapsto> s')"
    unfolding e using upd [of ?dm] m by simp_all
  then show ?thesis using cr' m(3,5) by blast
qed

lemma changeStatus_good:
  assumes g: "good d" and ns: "\<not> shared_removal (ChangeStatus e rq) d"
  shows "good (snd (changeClassRequestStatus e rq d))"
proof (cases "validationErrors rq = [] \<and> (\<exists>cr. map_of (requests d) (requestId rq) = Some cr)")
  case False
  then have "requests (snd (changeClassRequestStatus e rq d)) = requests d \<and>
      classes (snd (changeClassRequestStatus e rq d)) = classes d \<and>
      students (snd (changeClassRequestStatus e rq d)) = students d"
    by (auto simp: changeClassRequestStatus_def split: option.splits)
  then show ?thesis using g by (simp add: good_cong [of _ d])
next
  case True
  then obtain cr where cr: "validationErrors rq = []"
    "map_of (requests d) (requestId rq) = Some cr"
    by blast
  obtain c s where c: "map_of (classes d) (class_id cr) = Some c"
    and s: "map_of (students d) (student cr) = Some s"
    using good_refs [OF g cr(2)] by blast
  define cr' where "cr' = cr\<lparr>status := body_status rq,
              adminResponse := Some \<lparr>actionBy = user_id rq, actionDate = now e,
                actionNote = noteOr (adminNote rq)
                  (''Status changed from '' @ statusName (status cr) @ '' to '' @
                   statusName (body_status rq))\<rparr>\<rparr>"
  have cr': "status cr' = body_status rq" "student cr' = student cr" "class_id cr' = class_id cr"
    by (simp_all add: cr'_def)
  have upd: "requests (snd (updateStatus e rq cr (Some s) (Some c) d0)) =
      AList.update (requestId rq) cr' (requests d0)" for d0
    by (simp add: updateStatus_def Let_def cr'_def)
  let ?d' = "snd (changeClassRequestStatus e rq d)"
  consider (away) "status cr = Approved" "body_status rq \<noteq> Approved"
    | (into) "status cr \<noteq> Approved" "body_status rq = Approved"
    | (same) "(status cr = Approved) = (body_status rq = Approved)"
    by blast
  then show ?thesis
  proof cases
    case away
    have no: "\<not> other_approved d (requestId rq) cr" using ns cr away by simp
    obtain c' s' x where m:
      "requests ?d' = AList.update (requestId rq) x (requests d)"
      "status x = body_status rq" "student x = student cr" "class_id x = class_id cr"
      "map_of (classes ?d') = (map_of (classes d))(class_id cr \<mapsto> c')"
      "studentList c' = filter (\<lambda>i. i \<noteq> student cr) (studentList c)"
      "map_of (students ?d') = (map_of (students d))(student cr \<mapsto> s')"
      "classList s' = filter (\<lambda>i. i \<noteq> class_id cr) (classList s)"
      using changeStatus_away_maps [OF cr(1,2) away c s, of e] by (elim exE conjE) (rule that)
    show ?thesis
      using m away no
      by (intro single_request_step [OF g cr(2) c s, of ?d' c' s' x]) auto
  next
    case into
    show ?thesis
    proof (cases "student cr \<in> set (studentList c) \<or> int (length (studentList c)) < capacity c")
      case True
      obtain d1 c' s' where m: "enroll cr (Some s) c d = Some d1" "requests d1 = requests d"
        "map_of (classes d1) = (map_of (classes d))(class_id cr \<mapsto> c')"
        "studentList c' = (if student cr \<in> set (studentList c) then studentList c
                       else studentList c @ [student cr])"
        "map_of (students d1) = (map_of (students d))(student cr \<mapsto> s')"
        "classList s' = (if class_id cr \<in> set (classList s) then classList s
                     else classList s @ [class_id cr])"
        using enroll_maps [OF c s] by blast
      have full: "capacityFull c (populated_id (student cr) (Some s)) = Some False"
        using True by (auto simp: capacityFull_Some populated_id_def)
      have e: "?d' = snd (updateStatus e rq cr (Some s) (Some c) d1)"
        using cr c s into full m(1) by (simp add: changeClassRequestStatus_def Let_def)
      have "requests ?d' = AList.update (requestId rq) cr' (requests d)"
        "map_of (classes ?d') = (map_of (classes d))(class_id cr \<mapsto> c')"
        "map_of (students ?d') = (map_of (students d))(student cr \<mapsto> s')"
        unfolding e using upd [of d1] m by simp_all
      then show ?thesis
        using m(4,6) cr'
        by (intro single_request_step [OF g cr(2) c s, of ?d' c' s' cr']) auto
    next
      case False
      then have "changeClassRequestStatus e rq d = (Inl CapacityExceeded, d)"
        using cr c s into
        by (simp add: changeClassRequestStatus_def Let_def capacityFull_Some populated_id_def)
      then show ?thesis using g by simp
    qed
  next
    case same
    have e: "?d' = snd (updateStatus e rq cr (Some s) (Some c) d)"
      using cr c s same by (auto simp: changeClassRequestStatus_def Let_def)
    have r: "requests ?d' = AList.update (requestId rq) cr' (requests d)"
      "map_of (classes ?d') = (map_of (classes d))(class_id cr \<mapsto> c)"
      "map_of (students ?d') = (map_of (students d))(student cr \<mapsto> s)"
      unfolding e using upd [of d] c s by (simp_all add: map_upd_triv)
    have "status cr' = Approved \<longrightarrow>
        student cr \<in> set (studentList c) \<and> class_id cr \<in> set (classList s)"
      using good_member [OF g cr(2) _ c s] same cr'(1) by simp
    then show ?thesis
      using r cr'
      by (intro single_request_step [OF g cr(2) c s, of ?d' c s cr']) auto
  qed
qed

lemma delete_good:
  assumes g: "good d"
  shows "good (snd (deleteClassRequest rq d))"
proof (cases "snd (deleteClassRequest rq d) = d")
  case True
  then show ?thesis using g by simp
next
  case False
  then obtain cr where cr: "map_of (requests d) (requestId rq) = Some cr"
    and e: "snd (deleteClassRequest rq d) = d\<lparr>requests := AList.delete (requestId rq) (requests d)\<rparr>"
    by (auto simp: deleteClassRequest_def split: option.splits prod.splits if_splits)
  obtain c s where c: "map_of (classes d) (class_id cr) = Some c"
    and s: "map_of (students d) (student cr) = Some s"
    using good_refs [OF g cr] by blast
  show ?thesis
    unfolding e using c s
    by (intro single_request_step [OF g cr c s, of _ c s cr]) (auto simp: map_upd_triv)
qed

lemma changeStatus_breaks:
  assumes g: "good d" and sr: "shared_removal (ChangeStatus e rq) d"
  shows "\<not> relationship_ok (snd (changeClassRequestStatus e rq d))"
proof
  let ?d' = "snd (changeClassRequestStatus e rq d)"
  assume ok: "relationship_ok ?d'"
  have di: "distinct (map fst (requests d))" using g by (simp add: good_def)
  obtain cr where cr: "validationErrors rq = []" "map_of (requests d) (requestId rq) = Some cr"
    and away: "status cr = Approved" "body_status rq \<noteq> Approved"
    and oa: "other_approved d (requestId rq) cr"
    using sr by (auto split: option.splits)
  obtain r x where x: "map_of (requests d) r = Some x" "r \<noteq> requestId rq" "status x = Approved"
    "student x = student cr" "class_id x = class_id cr"
    using oa unfolding other_approved_iff [OF di] by (elim exE conjE) (rule that)
  obtain c s where c: "map_of (classes d) (class_id cr) = Some c"
    and s: "map_of (students d) (student cr) = Some s"
    using good_refs [OF g cr(2)] by blast
  obtain c' s' y where m:
    "requests ?d' = AList.update (requestId rq) y (requests d)"
    "status y = body_status rq" "student y = student cr" "class_id y = class_id cr"
    "map_of (classes ?d') = (map_of (classes d))(class_id cr \<mapsto> c')"
    "studentList c' = filter (\<lambda>i. i \<noteq> student cr) (studentList c)"
    "map_of (students ?d') = (map_of (students d))(student cr \<mapsto> s')"
    "classList s' = filter (\<lambda>i. i \<noteq> class_id cr) (classList s)"
    using changeStatus_away_maps [OF cr(1,2) away c s, of e] by (elim exE conjE) (rule that)
  have di': "distinct (map fst (requests ?d'))" unfolding m(1) using di by (simp add: distinct_update)
  have "map_of (requests ?d') r = Some x" unfolding m(1) using x(1,2) by (simp add: update_conv')
  then have "membership ?d' x" using ok x(3) unfolding relationship_ok_iff [OF di'] by blast
  then have "student cr \<in> set (studentsOf ?d' (class_id cr))" using x(4,5) by (simp add: membership_def)
  then show False using m(5,6) by (simp add: studentsOf_def)
qed

lemma adminDelete_approved_maps:
  assumes cr: "map_of (requests d) (requestId rq) = Some cr" and ap: "status cr = Approved"
    and c: "map_of (classes d) (class_id cr) = Some c"
    and s: "map_of (students d) (student cr) = Some s"
  shows "\<exists>c' s'.
     requests (snd (adminDeleteClassRequest e rq d)) = AList.delete (requestId rq) (requests d) \<and>
     map_of (classes (snd (adminDeleteClassRequest e rq d))) =
       (map_of (classes d))(class_id cr \<mapsto> c') \<and>
     studentList c' = filter (\<lambda>i. i \<noteq> student cr) (studentList c) \<and>
     map_of (students (snd (adminDeleteClassRequest e rq d))) =
       (map_of (students d))(student cr \<mapsto> s') \<and>
     classList s' = filter (\<lambda>i. i \<noteq> class_id cr) (classList s)"
proof -
  let ?d1 = "adminRemoveMembership cr (Some s) (Some c) d"
  let ?d' = "snd (adminDeleteClassRequest e rq d)"
  have f: "requests ?d' = AList.delete (requestId rq) (requests ?d1)"
    "classes ?d' = classes ?d1" "students ?d' = students ?d1"
    using cr ap c s by (simp_all add: adminDeleteClassRequest_def Let_def)
  obtain c' s' where "requests ?d1 = requests d"
    "map_of (classes ?d1) = (map_of (classes d))(class_id cr \<mapsto> c')"
    "studentList c' = filter (\<lambda>i. i \<noteq> student cr) (studentList c)"
    "map_of (students ?d1) = (map_of (students d))(student cr \<mapsto> s')"
    "classList s' = filter (\<lambda>i. i \<noteq> class_id cr) (classList s)"
    using adminRemoveMembership_maps [OF c s] by blast
  then show ?thesis using f by (intro exI [of _ c'] exI [of _ s']) simp
qed

lemma adminDelete_breaks:
  assumes g: "good d" and sr: "shared_removal (AdminDelete e rq) d"
  shows "\<not> relationship_ok (snd (adminDeleteClassRequest e rq d))"
proof
  let ?d' = "snd (adminDeleteClassRequest e rq d)"
  assume ok: "relationship_ok ?d'"
  have di: "distinct (map fst (requests d))" using g by (simp add: good_def)
  obtain cr where cr: "map_of (requests d) (requestId rq) = Some cr"
    and ap: "status cr = Approved" and oa: "other_approved d (requestId rq) cr"
    using sr by (auto split: option.splits)
  obtain r x where x: "map_of (requests d) r = Some x" "r \<noteq> requestId rq" "status x = Approved"
    "student x = student cr" "class_id x = class_id cr"
    using oa unfolding other_approved_iff [OF di] by (elim exE conjE) (rule that)
  obtain c s where c: "map_of (classes d) (class_id cr) = Some c"
    and s: "map_of (students d) (student cr) = Some s"
    using good_refs [OF g cr] by blast
  obtain c' s' where m:
    "requests ?d' = AList.delete (requestId rq) (requests d)"
    "map_of (classes ?d') = (map_of (classes d))(class_id cr \<mapsto> c')"
    "studentList c' = filter (\<lambda>i. i \<noteq> student cr) (studentList c)"
    using adminDelete_approved_maps [OF cr ap c s, of e] by (elim exE conjE) (rule that)
  have di': "distinct (map fst (requests ?d'))" unfolding m(1) using di by (simp add: distinct_delete)
  have "map_of (requests ?d') r = Some x" unfolding m(1) using x(1,2) by (simp add: delete_conv')
  then have "membership ?d' x" using ok x(3) unfolding relationship_ok_iff [OF di'] by blast
  then have "student cr \<in> set (studentsOf ?d' (class_id cr))" using x(4,5) by (simp add: membership_def)
  then show False using m(2,3) by (simp add: studentsOf_def)
qed

lemma adminDelete_good:
  assumes g: "good d" and ns: "\<not> shared_removal (AdminDelete e rq) d"
  shows "good (snd (adminDeleteClassRequest e rq d))"
proof (cases "map_of (requests d) (requestId rq)")
  case None
  then show ?thesis using g by (simp add: adminDeleteClassRequest_def)
next
  case (Some cr)
  obtain c s where c: "map_of (classes d) (class_id cr) = Some c"
    and s: "map_of (students d) (student cr) = Some s"
    using good_refs [OF g Some] by blast
  define d1 where "d1 = (if status cr = Approved then adminRemoveMembership cr (Some s) (Some c) d else d)"
  let ?d' = "snd (adminDeleteClassRequest e rq d)"
  have f: "requests ?d' = AList.delete (requestId rq) (requests d1)"
    "classes ?d' = classes d1" "students ?d' = students d1"
    using Some c s by (simp_all add: adminDeleteClassRequest_def Let_def d1_def)
  obtain c' s' where m: "requests d1 = requests d"
    "map_of (classes d1) = (map_of (classes d))(class_id cr \<mapsto> c')"
    "set (studentList c) - {student cr} \<subseteq> set (studentList c')"
    "map_of (students d1) = (map_of (students d))(student cr \<mapsto> s')"
    "set (classList s) - {class_id cr} \<subseteq> set (classList s')"
    "\<not> other_approved d (requestId rq) cr \<or> (c' = c \<and> s' = s)"
  proof (cases "status cr = Approved")
    case True
    obtain c' s' where "requests (adminRemoveMembership cr (Some s) (Some c) d) = requests d"
      "map_of (classes (adminRemoveMembership cr (Some s) (Some c) d)) =
         (map_of (classes d))(class_id cr \<mapsto> c')"
      "studentList c' = filter (\<lambda>i. i \<noteq> student cr) (studentList c)"
      "map_of (students (adminRemoveMembership cr (Some s) (Some c) d)) =
         (map_of (students d))(student cr \<mapsto> s')"
      "classList s' = filter (\<lambda>i. i \<noteq> class_id cr) (classList s)"
      using adminRemoveMembership_maps [OF c s] by blast
    moreover have "\<not> other_approved d (requestId rq) cr" using ns Some True by simp
    ultimately show ?thesis using True by (intro that [of c' s']) (auto simp: d1_def)
  next
    case False
    then show ?thesis using c s by (intro that [of c s]) (auto simp: d1_def map_upd_triv)
  qed
  show ?thesis
    using f m
    by (intro single_request_step [OF g Some c s, of ?d' c' s' cr]) auto
qed

lemma approveAll_good:
  assumes g: "good d"
  shows "good (snd (approveAllPendingRequests e rq d))"
proof (cases "validationErrors rq = [] \<and> pendingRequests d \<noteq> []")
  case False
  then have "requests (snd (approveAllPendingRequests e rq d)) = requests d \<and>
      classes (snd (approveAllPendingRequests e rq d)) = classes d \<and>
      students (snd (approveAllPendingRequests e rq d)) = students d"
    by (auto simp: approveAllPendingRequests_def)
  then show ?thesis using g by (simp add: good_cong [of _ d])
next
  case True
  let ?ps = "pendingRequests d"
  have di: "distinct (map fst (requests d))" using g by (simp add: good_def)
  note pe = pendingRequests_entries [OF di]
  have refs: "references_exist d ?ps"
    unfolding references_exist_def list_all_iff
  proof (intro ballI, clarify)
    fix rid cr
    assume "(rid, cr) \<in> set ?ps"
    then have "map_of (requests d) rid = Some cr" using pe by auto
    then show "map_of (students d) (student cr) \<noteq> None \<and> map_of (classes d) (class_id cr) \<noteq> None"
      using g unfolding good_def by blast
  qed
  obtain gs d' where l:
    "approveLoop e rq ?ps 0 0 [] d =
       (Some (0 + length (filter (approved_in d') ?ps),
              0 + length (filter (refused_in d') ?ps), [] @ gs), d')"
    "\<forall>p \<in> set ?ps. approved_in d' p \<noteq> refused_in d' p"
    "grows d d'"
    "map fst (requests d') = map fst (requests d)"
    "\<forall>rid. rid \<notin> fst ` set ?ps \<longrightarrow> map_of (requests d') rid = map_of (requests d) rid"
    "\<forall>rid cr'. map_of (requests d') rid = Some cr' \<longrightarrow>
             (\<exists>cr. map_of (requests d) rid = Some cr \<and> student cr' = student cr \<and>
                   class_id cr' = class_id cr)"
    using approveLoop_correct [of ?ps d e rq 0 0 "[]"] pe refs by blast
  have res: "snd (approveAllPendingRequests e rq d) = d'"
    using True l(1) by (simp add: approveAllPendingRequests_def)
  have keys: "distinct (map fst (requests d'))" using l(4) di by simp
  have exist: "map_of (students d') (student x) \<noteq> None \<and> map_of (classes d') (class_id x) \<noteq> None"
    if hr: "map_of (requests d') r = Some x" for r x
  proof -
    obtain y where "map_of (requests d) r = Some y" "student x = student y" "class_id x = class_id y"
      using l(6) hr by blast
    then have "map_of (students d) (student x) \<noteq> None" "map_of (classes d) (class_id x) \<noteq> None"
      using g unfolding good_def by metis+
    then show ?thesis using l(3) unfolding grows_def by fastforce
  qed
  have inv: "membership d' x" if h: "map_of (requests d') r = Some x" "status x = Approved" for r x
  proof -
    obtain y where y: "map_of (requests d) r = Some y" "student x = student y" "class_id x = class_id y"
      using l(6) h(1) by blast
    show ?thesis
    proof (cases "r \<in> fst ` set ?ps")
      case True
      then obtain cr where "(r, cr) \<in> set ?ps" by force
      then have p: "(r, y) \<in> set ?ps" using pe y(1) by auto
      have "\<not> refused_in d' (r, y)" using h by (auto simp: refused_in_def)
      then have "approved_in d' (r, y)" using l(2) p by blast
      then have "membership d' y" by (simp add: approved_in_def)
      then show ?thesis using y(2,3) by (simp add: membership_def)
    next
      case False
      then have "map_of (requests d) r = Some x" using l(5) h(1) by simp
      then have "membership d x" using g h(2) unfolding good_def by blast
      then show ?thesis using membership_grows [OF l(3)] by blast
    qed
  qed
  show ?thesis
    unfolding res good_def using keys exist inv by blast
qed

lemma freshId_fresh: "map_of (requests d) (freshId d) = None"
proof -
  have le: "k \<in> set ks \<Longrightarrow> k \<le> foldr max ks (0::nat)" for k ks
    by (induction ks) auto
  have "freshId d \<notin> set (map fst (requests d))"
    using le [of "freshId d" "map fst (requests d)"] by (auto simp: freshId_def)
  then show ?thesis by (simp add: map_of_eq_None_iff)
qed

lemma create_good:
  assumes g: "good d"
  shows "good (snd (createClassRequest rq d))"
proof (cases "snd (createClassRequest rq d) = d")
  case True
  then show ?thesis using g by simp
next
  case False
  define new where "new sid = \<lparr>student = sid, class_id = body_classId rq, reason = body_reason rq,
      status = Pending, adminResponse = None\<rparr>" for sid :: oid
  obtain sid s c where h:
    "find (\<lambda>(sid, s). userId s = user_id rq) (students d) = Some (sid, s)"
    "map_of (classes d) (body_classId rq) = Some c"
    "snd (createClassRequest rq d) = save_request (freshId d) (new sid) d"
    using False
    by (auto simp: createClassRequest_def new_def split: option.splits prod.splits if_splits)
  let ?d' = "snd (createClassRequest rq d)"
  have "(sid, s) \<in> set (students d)" using h(1) unfolding find_Some_iff by (metis nth_mem)
  then have "sid \<in> fst ` set (students d)" by (rule image_eqI [rotated]) simp
  then have sx: "map_of (students d) sid \<noteq> None"
    by (simp add: map_of_eq_None_iff)
  have r: "requests ?d' = AList.update (freshId d) (new sid) (requests d)"
    "classes ?d' = classes d" "students ?d' = students d"
    unfolding h(3) by (simp_all add: save_request_def)
  have keys: "distinct (map fst (requests ?d'))"
    using g unfolding r(1) by (simp add: good_def distinct_update)
  have origin: "(r' = freshId d \<and> x = new sid) \<or> map_of (requests d) r' = Some x"
    if "map_of (requests ?d') r' = Some x" for r' x
    using that unfolding r(1) by (auto simp: update_conv' split: if_splits)
  have refs: "map_of (students ?d') (student x) \<noteq> None \<and> map_of (classes ?d') (class_id x) \<noteq> None"
    if hr: "map_of (requests ?d') r' = Some x" for r' x
    using origin [OF hr]
  proof
    assume "r' = freshId d \<and> x = new sid"
    then show ?thesis using sx h(2) unfolding r(2,3) by (simp add: new_def)
  next
    assume "map_of (requests d) r' = Some x"
    then show ?thesis using g unfolding r(2,3) good_def by blast
  qed
  have inv: "membership ?d' x" if hr: "map_of (requests ?d') r' = Some x" "status x = Approved" for r' x
    using origin [OF hr(1)]
  proof
    assume "r' = freshId d \<and> x = new sid"
    then show ?thesis using hr(2) by (simp add: new_def)
  next
    assume "map_of (requests d) r' = Some x"
    then have "membership d x" using g hr(2) unfolding good_def by blast
    then show ?thesis by (simp add: membership_def studentsOf_def classesOf_def r(2,3))
  qed
  show ?thesis
    unfolding good_def using keys refs inv by blast
qed

lemma step_good:
  assumes g: "good d" and ns: "\<not> shared_removal op d"
  shows "good (step op d)"
proof (cases op)
  case (Create rq)
  then show ?thesis using g by (simp add: create_good)
next
  case (Approve e rq)
  then show ?thesis using g by (simp add: approve_good)
next
  case (Reject e rq)
  then show ?thesis using g by (simp add: reject_good)
next
  case (ChangeStatus e rq)
  have "good (snd (changeClassRequestStatus e rq d))"
    using g ns [unfolded ChangeStatus] by (rule changeStatus_good)
  then show ?thesis using ChangeStatus by simp
next
  case (ApproveAllPending e rq)
  then show ?thesis using g by (simp add: approveAll_good)
next
  case (Delete rq)
  then show ?thesis using g by (simp add: delete_good)
next
  case (AdminDelete e rq)
  have "good (snd (adminDeleteClassRequest e rq d))"
    using g ns [unfolded AdminDelete] by (rule adminDelete_good)
  then show ?thesis using AdminDelete by simp
qed

lemma step_breaks:
  assumes g: "good d" and sr: "shared_removal op d"
  shows "\<not> relationship_ok (step op d)"
proof (cases op)
  case (ChangeStatus e rq)
  have "\<not> relationship_ok (snd (changeClassRequestStatus e rq d))"
    using g sr [unfolded ChangeStatus] by (rule changeStatus_breaks)
  then show ?thesis using ChangeStatus by simp
next
  case (AdminDelete e rq)
  have "\<not> relationship_ok (snd (adminDeleteClassRequest e rq d))"
    using g sr [unfolded AdminDelete] by (rule adminDelete_breaks)
  then show ?thesis using AdminDelete by simp
qed (use sr in simp_all)

lemma along_good:
  "good d \<Longrightarrow> no_shared_removal ops d \<Longrightarrow>
   good (run ops d) \<and> after_every relationship_ok ops d"
proof (induction ops arbitrary: d)
  case Nil
  then show ?case by (simp add: run_def)
next
  case (Cons op ops)
  have ns: "\<not> shared_removal op d" using Cons.prems(2) by simp
  have g': "good (step op d)" using Cons.prems(1) ns by (rule step_good)
  have h': "no_shared_removal ops (step op d)" using Cons.prems(2) by simp
  have "good (run ops (step op d)) \<and> after_every relationship_ok ops (step op d)"
    using Cons.IH [OF g' h'] .
  moreover have "relationship_ok (step op d)" using g' by (simp add: good_iff)
  ultimately show ?case by (simp add: run_def)
qed

lemma step_relationship_iff:
  assumes "good d"
  shows "relationship_ok (step op d) \<longleftrightarrow> \<not> shared_removal op d"
  using step_good [OF assms, of op] step_breaks [OF assms, of op] by (auto simp: good_iff)

lemma changeStatus_away_removes:
  assumes "validationErrors rq = []" and "map_of (requests d) (requestId rq) = Some cr"
    and "status cr = Approved" and "body_status rq \<noteq> Approved"
    and "map_of (students d) (student cr) = Some s"
    and "map_of (classes d) (class_id cr) = Some c"
  shows "\<exists>r d'. changeClassRequestStatus e rq d = (Inr r, d') \<and>
     map_of (requests d') (requestId rq) = Some r \<and> status r = body_status rq \<and>
     student cr \<notin> set (studentsOf d' (class_id cr)) \<and>
     class_id cr \<notin> set (classesOf d' (student cr))"
proof -
  obtain r d' c' s' where a: "changeClassRequestStatus e rq d = (Inr r, d')"
    "map_of (requests d') (requestId rq) = Some r" "status r = body_status rq"
    "map_of (classes d') (class_id cr) = Some c'"
    "studentList c' = filter (\<lambda>i. i \<noteq> student cr) (studentList c)"
    "map_of (students d') (student cr) = Some s'"
    "classList s' = filter (\<lambda>i. i \<noteq> class_id cr) (classList s)"
    using changeStatus_away_effect [OF assms(1,2,3,4,6,5), of e] by blast
  have "student cr \<notin> set (studentsOf d' (class_id cr))"
    "class_id cr \<notin> set (classesOf d' (student cr))"
    using a(4-7) by (simp_all add: studentsOf_def classesOf_def)
  then show ?thesis using a(1,2,3) by blast
qed


text \<open>
  When the student document of a request does not exist and the class's list is empty,
  \<open>approveClassRequest\<close> passes the capacity check, saves the request as Approved
  (line 221) and only then fails in the enrolment block (lines 224-245): it answers 500 and
  the request stays Approved without its membership. The relationship invariant is stated
  below for stores where the student and the class of every request exist.
\<close>

lemma approve_missing_student_leaves_approved:
  "references_exist store_orphan (requests store_orphan) = False \<and>
   fst (approveClassRequest sink_up (admin_req 4 Approved) store_orphan) = Inl EnrollFailed \<and>
   map_option status
     (map_of (requests (snd (approveClassRequest sink_up (admin_req 4 Approved) store_orphan))) 4) =
     Some Approved \<and>
   studentsOf (snd (approveClassRequest sink_up (admin_req 4 Approved) store_orphan)) 20 = [] \<and>
   \<not> relationship_ok (snd (approveClassRequest sink_up (admin_req 4 Approved) store_orphan))"
  by code_simp

text \<open>
  C2, as the code has it. Take a store where the request ids are unique, the student and the
  class of every request exist and every Approved request has its membership in both
  lists. Any one of the seven coordinator operations (create, approve, reject, change
  status, approve all pending, delete, admin delete) leaves a store where every Approved
  request has its membership, unless it is a shared removal: a change of status that passes
  validation, of an Approved request to another status, or an admin deletion of an Approved
  request, while another Approved request names the same student and class; a shared
  removal leaves that other request Approved without its membership. Hence after every
  operation of a sequence without a shared removal every Approved request has its
  membership; the request ids are still unique and the student and the class of every
  request still exist. And a successful change of an Approved request to another status,
  with the student and the class existing, leaves the student out of the class's
  enrolledStudents and the class out of the student's enrolledClasses.
\<close>

theorem relationship_invariant:
  "(distinct (map fst (requests d)) \<longrightarrow> references_exist d (requests d) \<longrightarrow> relationship_ok d \<longrightarrow>
      (relationship_ok (step op d) \<longleftrightarrow> \<not> shared_removal op d)) \<and>
   (distinct (map fst (requests d)) \<longrightarrow> references_exist d (requests d) \<longrightarrow> relationship_ok d \<longrightarrow>
    no_shared_removal ops d \<longrightarrow>
      after_every relationship_ok ops d \<and> relationship_ok (run ops d) \<and>
      distinct (map fst (requests (run ops d))) \<and>
      references_exist (run ops d) (requests (run ops d))) \<and>
   (validationErrors rq = [] \<longrightarrow> map_of (requests d) (requestId rq) = Some cr \<longrightarrow>
    status cr = Approved \<longrightarrow> body_status rq \<noteq> Approved \<longrightarrow>
    map_of (students d) (student cr) = Some s \<longrightarrow> map_of (classes d) (class_id cr) = Some c \<longrightarrow>
      (\<exists>r d'. changeClassRequestStatus e rq d = (Inr r, d') \<and>
         map_of (requests d') (requestId rq) = Some r \<and> status r = body_status rq \<and>
         student cr \<notin> set (studentsOf d' (class_id cr)) \<and>
         class_id cr \<notin> set (classesOf d' (student cr))))"
  using step_relationship_iff [of d op] along_good [of d ops]
    changeStatus_away_removes [of rq d cr s c e]
  unfolding good_iff by blast

theorem relationship_invariant_witness:
  "distinct (map fst (requests store_unique)) \<and>
   references_exist store_unique (requests store_unique) \<and> relationship_ok store_unique \<and>
   \<not> shared_removal (AdminDelete sink_up (admin_req 2 Approved)) store_unique \<and>
   relationship_ok (step (AdminDelete sink_up (admin_req 2 Approved)) store_unique) \<and>
   no_shared_removal sample_ops store_unique \<and>
   after_every relationship_ok sample_ops store_unique \<and>
   relationship_ok (run sample_ops store_unique) \<and>
   map (\<lambda>(rid, cr). (rid, student cr, class_id cr, status cr))
     (requests (run (take 2 sample_ops) store_unique)) =
     [(2, 10, 20, Rejected), (3, 11, 20, Pending), (4, 10, 20, Pending)] \<and>
   map (\<lambda>(rid, cr). (rid, student cr, class_id cr, status cr))
     (requests (run sample_ops store_unique)) = [(2, 10, 20, Rejected), (4, 10, 20, Approved)] \<and>
   map_of (requests store_unique) (requestId (admin_req 2 Rejected)) = Some (request_of 10 20 Approved) \<and>
   (\<exists>r d'. changeClassRequestStatus sink_up (admin_req 2 Rejected) store_unique = (Inr r, d') \<and>
      status r = Rejected \<and> 10 \<notin> set (studentsOf d' 20) \<and> 20 \<notin> set (classesOf d' 10)) \<and>
   distinct (map fst (requests store_shared)) \<and>
   references_exist store_shared (requests store_shared) \<and> relationship_ok store_shared \<and>
   shared_removal (ChangeStatus sink_up (admin_req 1 Rejected)) store_shared \<and>
   \<not> relationship_ok (step (ChangeStatus sink_up (admin_req 1 Rejected)) store_shared)"
proof -
  have a: "distinct (map fst (requests store_unique))"
    "references_exist store_unique (requests store_unique)" "relationship_ok store_unique"
    "\<not> shared_removal (AdminDelete sink_up (admin_req 2 Approved)) store_unique"
    "no_shared_removal sample_ops store_unique"
    by code_simp+
  have b: "distinct (map fst (requests store_shared))"
    "references_exist store_shared (requests store_shared)" "relationship_ok store_shared"
    "shared_removal (ChangeStatus sink_up (admin_req 1 Rejected)) store_shared"
    by code_simp+
  have m: "map (\<lambda>(rid, cr). (rid, student cr, class_id cr, status cr))
     (requests (run (take 2 sample_ops) store_unique)) =
     [(2, 10, 20, Rejected), (3, 11, 20, Pending), (4, 10, 20, Pending)]"
    "map (\<lambda>(rid, cr). (rid, student cr, class_id cr, status cr))
     (requests (run sample_ops store_unique)) = [(2, 10, 20, Rejected), (4, 10, 20, Approved)]"
    by code_simp+
  have h: "validationErrors (admin_req 2 Rejected) = []"
    "map_of (requests store_unique) (requestId (admin_req 2 Rejected)) = Some (request_of 10 20 Approved)"
    "status (request_of 10 20 Approved) = Approved" "body_status (admin_req 2 Rejected) \<noteq> Approved"
    "map_of (students store_unique) (student (request_of 10 20 Approved)) = Some (student10 (Some [20]))"
    "map_of (classes store_unique) (class_id (request_of 10 20 Approved)) = Some (class20 (Some [10]))"
    "student (request_of 10 20 Approved) = 10" "class_id (request_of 10 20 Approved) = 20"
    "body_status (admin_req 2 Rejected) = Rejected"
    by (simp_all add: store_unique_def example_defs)
  note t = relationship_invariant [where d = store_unique and rq = "admin_req 2 Rejected"
      and cr = "request_of 10 20 Approved" and s = "student10 (Some [20])"
      and c = "class20 (Some [10])" and e = sink_up and ops = sample_ops
      and op = "AdminDelete sink_up (admin_req 2 Approved)"]
  note u = relationship_invariant [where d = store_shared
      and op = "ChangeStatus sink_up (admin_req 1 Rejected)"]
  have 1: "relationship_ok (step (AdminDelete sink_up (admin_req 2 Approved)) store_unique)"
    "after_every relationship_ok sample_ops store_unique"
    "relationship_ok (run sample_ops store_unique)"
    using t a by blast+
  have 2: "\<exists>r d'. changeClassRequestStatus sink_up (admin_req 2 Rejected) store_unique = (Inr r, d') \<and>
      status r = Rejected \<and> 10 \<notin> set (studentsOf d' 20) \<and> 20 \<notin> set (classesOf d' 10)"
    using t h by auto
  have 3: "\<not> relationship_ok (step (ChangeStatus sink_up (admin_req 1 Rejected)) store_shared)"
    using u b by blast
  show ?thesis using a b m h(2) 1 2 3 by blast
qed


text \<open>
  C2 as stated fails when two requests name the same student and class, which
  \<open>createClassRequest\<close> allows once the first is no longer Pending and the student is not
  enrolled (lines 39-53). On \<open>store0\<close>: request 2 is approved, request 1 (same student
  and class) is changed to Approved and then to Rejected; the last step removes the
  membership, and request 2 is left Approved without it.
\<close>

theorem relationship_broken_by_second_request:
  "relationship_ok store0 \<and>
   relationship_ok (run [Approve sink_up (admin_req 2 Approved),
                         ChangeStatus sink_up (admin_req 1 Approved)] store0) \<and>
   \<not> relationship_ok (run [Approve sink_up (admin_req 2 Approved),
                           ChangeStatus sink_up (admin_req 1 Approved),
                           ChangeStatus sink_up (admin_req 1 Rejected)] store0) \<and>
   map_option status (map_of (requests (run [Approve sink_up (admin_req 2 Approved),
                           ChangeStatus sink_up (admin_req 1 Approved),
                           ChangeStatus sink_up (admin_req 1 Rejected)] store0)) 2) = Some Approved \<and>
   studentsOf (run [Approve sink_up (admin_req 2 Approved),
                           ChangeStatus sink_up (admin_req 1 Approved),
                           ChangeStatus sink_up (admin_req 1 Rejected)] store0) 20 = [] \<and>
   classesOf (run [Approve sink_up (admin_req 2 Approved),
                           ChangeStatus sink_up (admin_req 1 Approved),
                           ChangeStatus sink_up (admin_req 1 Rejected)] store0) 10 = []"
  by code_simp

subsection \<open>Notification failures\<close>

text \<open>
  The handlers that wrap the notification call in \<open>try\<close>/\<open>catch\<close>: their answer and
  the three collections they leave do not depend on whether \<open>createNotification\<close> throws.
\<close>

lemma same_store_refl [simp]: "same_store d d"
  by (simp add: same_store_def)

lemma same_store_tryDispatch [simp]:
  "same_store (tryDispatch e l n d) (tryDispatch e' l' n' d') = same_store d d'"
  by (simp add: same_store_def)

lemma same_store_console [simp]:
  "same_store (console_error m d) d' = same_store d d'"
  "same_store d (console_error m d') = same_store d d'"
  by (simp_all add: same_store_def)

lemma approve_swallows:
  assumes "now e = now e'"
  shows "fst (approveClassRequest e rq d) = fst (approveClassRequest e' rq d) \<and>
         same_store (snd (approveClassRequest e rq d)) (snd (approveClassRequest e' rq d))"
  using assms
  by (auto simp: approveClassRequest_def Let_def split: option.splits)

lemma changeStatus_swallows:
  assumes "now e = now e'"
  shows "fst (changeClassRequestStatus e rq d) = fst (changeClassRequestStatus e' rq d) \<and>
         same_store (snd (changeClassRequestStatus e rq d)) (snd (changeClassRequestStatus e' rq d))"
  using assms
  by (auto simp: changeClassRequestStatus_def updateStatus_def Let_def split: option.splits)

lemma adminDelete_swallows:
  "fst (adminDeleteClassRequest e rq d) = fst (adminDeleteClassRequest e' rq d) \<and>
   same_store (snd (adminDeleteClassRequest e rq d)) (snd (adminDeleteClassRequest e' rq d))"
  by (auto simp: adminDeleteClassRequest_def Let_def same_store_def split: option.splits)


lemma enroll_same_store:
  assumes "same_store d d'"
  shows "(case enroll cr s_opt c d of
            None \<Rightarrow> enroll cr s_opt c d' = None
          | Some d1 \<Rightarrow> (\<exists>d1'. enroll cr s_opt c d' = Some d1' \<and> same_store d1 d1'))"
  using assms
  by (cases s_opt) (auto simp: enroll_Some addClassToStudent_alt same_store_def)

lemma approveOne_swallows:
  assumes "same_store d d'" and "now e = now e'"
  shows "fst (approveOne e rq rid cr d) = fst (approveOne e' rq rid cr d') \<and>
         same_store (snd (approveOne e rq rid cr d)) (snd (approveOne e' rq rid cr d'))"
proof -
  have m: "map_of (students d') (student cr) = map_of (students d) (student cr)"
    "map_of (classes d') (class_id cr) = map_of (classes d) (class_id cr)"
    using assms(1) by (simp_all add: same_store_def)
  show ?thesis
  proof (cases "\<exists>c d1. map_of (classes d) (class_id cr) = Some c \<and>
      capacityFull c (populated_id (student cr) (map_of (students d) (student cr))) = Some False \<and>
      enroll cr (map_of (students d) (student cr)) c d = Some d1")
    case True
    then obtain c d1 where h: "map_of (classes d) (class_id cr) = Some c"
      "capacityFull c (populated_id (student cr) (map_of (students d) (student cr))) = Some False"
      "enroll cr (map_of (students d) (student cr)) c d = Some d1"
      by blast
    obtain d1' where h': "enroll cr (map_of (students d) (student cr)) c d' = Some d1'"
      "same_store d1 d1'"
      using enroll_same_store [OF assms(1), of cr "map_of (students d) (student cr)" c] h(3)
      by auto
    show ?thesis
      using h h' m assms(2) by (simp add: approveOne_def Let_def same_store_def)
  next
    case False
    then have n: "map_of (classes d) (class_id cr) = Some c \<Longrightarrow>
        capacityFull c (populated_id (student cr) (map_of (students d) (student cr))) = Some False \<Longrightarrow>
        enroll cr (map_of (students d) (student cr)) c d = None \<and>
        enroll cr (map_of (students d) (student cr)) c d' = None" for c
      using enroll_same_store [OF assms(1), of cr "map_of (students d) (student cr)" c]
      by (cases "enroll cr (map_of (students d) (student cr)) c d") auto
    show ?thesis
      using m assms(1) n
      by (auto simp: approveOne_def Let_def itemThrew_def split: option.splits)
  qed
qed

lemma approveLoop_swallows:
  assumes "same_store d d'" and "now e = now e'"
  shows "fst (approveLoop e rq ps a f fs d) = fst (approveLoop e' rq ps a f fs d') \<and>
         same_store (snd (approveLoop e rq ps a f fs d)) (snd (approveLoop e' rq ps a f fs d'))"
  using assms(1)
proof (induction ps arbitrary: a f fs d d')
  case Nil
  then show ?case by simp
next
  case (Cons p ps)
  obtain rid cr where p: "p = (rid, cr)" by (cases p)
  obtain r d1 where one: "approveOne e rq rid cr d = (r, d1)" by (cases "approveOne e rq rid cr d")
  obtain r' d1' where one': "approveOne e' rq rid cr d' = (r', d1')"
    by (cases "approveOne e' rq rid cr d'")
  have eq: "r' = r" "same_store d1 d1'"
    using approveOne_swallows [OF Cons.prems assms(2), of rq rid cr] one one' by simp_all
  show ?case
    using Cons.IH [OF eq(2)] one one' eq p by (cases r) simp_all
qed

lemma approveAll_swallows:
  assumes "now e = now e'"
  shows "fst (approveAllPendingRequests e rq d) = fst (approveAllPendingRequests e' rq d) \<and>
         same_store (snd (approveAllPendingRequests e rq d)) (snd (approveAllPendingRequests e' rq d))"
proof -
  obtain r d1 where l: "approveLoop e rq (pendingRequests d) 0 0 [] d = (r, d1)"
    by (cases "approveLoop e rq (pendingRequests d) 0 0 [] d")
  obtain r' d1' where l': "approveLoop e' rq (pendingRequests d) 0 0 [] d = (r', d1')"
    by (cases "approveLoop e' rq (pendingRequests d) 0 0 [] d")
  have "r' = r" "same_store d1 d1'"
    using approveLoop_swallows [OF same_store_refl assms, of rq "pendingRequests d" 0 0 "[]" d] l l'
    by simp_all
  then show ?thesis
    using l l' by (auto simp: approveAllPendingRequests_def split: option.splits)
qed

text \<open>
  C7, evaluated on \<open>store0\<close>: rejecting the pending request 3 succeeds when the
  notification is delivered; when \<open>createNotification\<close> throws, the same call answers
  \<open>ServerError\<close> (500) although the request has been saved as Rejected. The approve
  handler gives the same answer under both sinks.
\<close>

theorem reject_fails_when_notification_throws:
  "fst (rejectClassRequest sink_up (admin_req 3 Rejected) store0) =
     Inr ((request_of 11 20 Rejected)\<lparr>adminResponse :=
            Some \<lparr>actionBy = 99, actionDate = 7, actionNote = ''Request rejected''\<rparr>\<rparr>) \<and>
   fst (rejectClassRequest sink_down (admin_req 3 Rejected) store0) = Inl ServerError \<and>
   map_of (requests (snd (rejectClassRequest sink_down (admin_req 3 Rejected) store0))) 3 =
     Some ((request_of 11 20 Rejected)\<lparr>adminResponse :=
            Some \<lparr>actionBy = 99, actionDate = 7, actionNote = ''Request rejected''\<rparr>\<rparr>) \<and>
   fst (approveClassRequest sink_down (admin_req 3 Approved) store0) =
     fst (approveClassRequest sink_up (admin_req 3 Approved) store0)"
  by (simp add: example_defs rejectClassRequest_def approveClassRequest_def Let_def
      dispatch_def mkNotification_def noteOr_def capacityFull_def some_equals_def
      populated_id_def enroll_def addStudentToClass_def addClassToStudent_def)

end
